theory Spec2Isabelle
  imports Main "HOL-Library.Word" "HOL-Library.Sublist"
begin

unbundle bit_operations_syntax

section \<open>Data model of the scan engine\<close>

text \<open>
  The scan engine of \<^verbatim>\<open>src/main.cpp\<close> is the call tree below \<^verbatim>\<open>performDiagnosticScan\<close>:
  \<^verbatim>\<open>autoDetectCANBaudRate\<close>, \<^verbatim>\<open>reinitializeCAN\<close>, \<^verbatim>\<open>listenForCANTraffic\<close>,
  \<^verbatim>\<open>probeOBD2ECUsWithTimeout\<close>, \<^verbatim>\<open>scanAllDTCs\<close>, \<^verbatim>\<open>parseAndStoreDTC\<close> and
  \<^verbatim>\<open>updateScanProgress\<close>. Fixed-width integers are words; \<^verbatim>\<open>String\<close> is a character list.
\<close>

type_synonym u8 = "8 word"
type_synonym u16 = "16 word"
type_synonym u32 = "32 word"

text \<open>
  \<^verbatim>\<open>twai_message_t\<close> of the bus driver: the flag word, the arbitration identifier (field \<^verbatim>\<open>identifier\<close>), the
  data length code and the eight data bytes (a list; a frame of the driver has eight).
\<close>

record twai_message =
  flags :: u32
  msg_identifier :: u32
  data_length_code :: u8
  data :: "u8 list"

text \<open>\<^verbatim>\<open>struct FaultCode { String code; String system; bool isPending; uint16_t ecuId; }\<close>\<close>

record FaultCode =
  code :: string
  system :: string
  isPending :: bool
  ecuId :: u16

text \<open>
  Reading \<^verbatim>\<open>data[i]\<close> beyond the eight bytes of a frame is undefined behaviour in the
  source; the model makes it a fault value and stops.
\<close>

datatype fault = OutOfBounds

section \<open>The Arduino \<^verbatim>\<open>String\<close> operations the decoder uses\<close>

text \<open>
  \<^verbatim>\<open>String(n, HEX)\<close> and \<^verbatim>\<open>String(n)\<close> print a non-negative number in base 16
  (lower case) and base 10 with no leading zeros; \<^verbatim>\<open>toUpperCase\<close> maps the letters
  \<^verbatim>\<open>a..z\<close> to \<^verbatim>\<open>A..Z\<close> and leaves every other character alone.
\<close>

definition digit_char :: "nat \<Rightarrow> char" where
  "digit_char d = ''0123456789abcdef'' ! d"

function String_HEX :: "nat \<Rightarrow> string" where
  "String_HEX n =
     (if n < 16 then [digit_char n] else String_HEX (n div 16) @ [digit_char (n mod 16)])"
  by pat_completeness auto
termination
proof (relation "measure id")
  show "wf (measure id)" by simp
next
  fix n :: nat
  assume "\<not> n < 16"
  then have "n div 16 < n" by simp
  then show "(n div 16, n) \<in> measure id" by simp
qed

function String_DEC :: "nat \<Rightarrow> string" where
  "String_DEC n =
     (if n < 10 then [digit_char n] else String_DEC (n div 10) @ [digit_char (n mod 10)])"
  by pat_completeness auto
termination
proof (relation "measure id")
  show "wf (measure id)" by simp
next
  fix n :: nat
  assume "\<not> n < 10"
  then have "n div 10 < n" by simp
  then show "(n div 10, n) \<in> measure id" by simp
qed

definition toUpperCase_char :: "char \<Rightarrow> char" where
  "toUpperCase_char c =
     (if (97::nat) \<le> of_char c \<and> of_char c \<le> (122::nat)
      then char_of (of_char c - (32::nat)) else c)"

definition toUpperCase :: "string \<Rightarrow> string" where
  "toUpperCase s = map toUpperCase_char s"

section \<open>\<^verbatim>\<open>parseAndStoreDTC\<close>\<close>

text \<open>
  The category letter: \<^verbatim>\<open>'P'\<close> unless \<^verbatim>\<open>byte1 & 0xC0\<close> is \<^verbatim>\<open>0x40\<close> (C),
  \<^verbatim>\<open>0x80\<close> (B) or \<^verbatim>\<open>0xC0\<close> (U).
\<close>

definition dtc_category :: "u8 \<Rightarrow> char" where
  "dtc_category byte1 =
     (if byte1 AND 0xC0 = 0x40 then CHR ''C''
      else if byte1 AND 0xC0 = 0x80 then CHR ''B''
      else if byte1 AND 0xC0 = 0xC0 then CHR ''U''
      else CHR ''P'')"

text \<open>\<^verbatim>\<open>int codeNumber = ((byte1 & 0x3F) << 8) | byte2;\<close> (a 32-bit \<^verbatim>\<open>int\<close>, never negative).\<close>

definition dtc_codeNumber :: "u8 \<Rightarrow> u8 \<Rightarrow> u32" where
  "dtc_codeNumber byte1 byte2 = push_bit 8 (ucast (byte1 AND 0x3F)) OR ucast byte2"

text \<open>
  The padding loop:
  \<^verbatim>\<open>while (dtcCode.length() < 5) dtcCode = dtcCode.substring(0, 1) + "0" + dtcCode.substring(1);\<close>
\<close>

function pad_dtc :: "string \<Rightarrow> string" where
  "pad_dtc dtcCode =
     (if length dtcCode < 5 then pad_dtc (take 1 dtcCode @ ''0'' @ drop 1 dtcCode) else dtcCode)"
  by pat_completeness auto
termination
  by (relation "measure (\<lambda>s. 5 - length s)") simp_all

text \<open>
  The string of one byte pair:
  \<^verbatim>\<open>String dtcCode = String(category) + String(codeNumber, HEX); dtcCode.toUpperCase();\<close>
  followed by the padding loop.
\<close>

definition dtc_string :: "u8 \<Rightarrow> u8 \<Rightarrow> string" where
  "dtc_string byte1 byte2 =
     pad_dtc (toUpperCase (dtc_category byte1 # String_HEX (unat (dtc_codeNumber byte1 byte2))))"

text \<open>The record pushed for a byte pair that is not skipped.\<close>

definition make_fault :: "u8 \<Rightarrow> u8 \<Rightarrow> u16 \<Rightarrow> FaultCode" where
  "make_fault byte1 byte2 ecu =
     \<lparr>code = dtc_string byte1 byte2,
      system = ''ECU 0x'' @ String_HEX (unat ecu),
      isPending = False,
      ecuId = ecu\<rparr>"

text \<open>
  The loop \<^verbatim>\<open>for (int i = 2; i < len - 1; i += 2)\<close> over the vector
  \<^verbatim>\<open>detectedCodes\<close>, from index \<open>i\<close> on; \<^verbatim>\<open>parseAndStoreDTC\<close> enters it at 2.
\<close>

function parseAndStoreDTC_loop ::
  "int \<Rightarrow> u8 list \<Rightarrow> int \<Rightarrow> u16 \<Rightarrow> FaultCode list \<Rightarrow> fault + FaultCode list" where
  "parseAndStoreDTC_loop i bytes len ecu codes =
     (if i < len - 1 then
        (if 0 \<le> i \<and> i + 1 < int (length bytes) then
           (let byte1 = bytes ! nat i; byte2 = bytes ! nat (i + 1) in
            if byte1 = 0 \<and> byte2 = 0
            then parseAndStoreDTC_loop (i + 2) bytes len ecu codes
            else parseAndStoreDTC_loop (i + 2) bytes len ecu (codes @ [make_fault byte1 byte2 ecu]))
         else Inl OutOfBounds)
      else Inr codes)"
  by pat_completeness auto
termination
  by (relation "measure (\<lambda>(i, bytes, len, ecu, codes). nat (len - i))") simp_all

definition parseAndStoreDTC :: "u8 list \<Rightarrow> int \<Rightarrow> u16 \<Rightarrow> FaultCode list \<Rightarrow> fault + FaultCode list" where
  "parseAndStoreDTC bytes len ecu codes = parseAndStoreDTC_loop 2 bytes len ecu codes"

section \<open>The environment: clock, bus driver and progress display\<close>

text \<open>
  The globals of the sketch that the scan touches (\<^verbatim>\<open>detectedCodes\<close>, \<^verbatim>\<open>activeECUs\<close>,
  \<^verbatim>\<open>vehicleDetected\<close>) and what it sees of the world, in one record.

  \<^item> \<open>clock\<close> is the millisecond counter read by \<^verbatim>\<open>millis()\<close>. The source keeps it in an
    \<^verbatim>\<open>unsigned long\<close> and only ever uses differences \<^verbatim>\<open>millis() - start\<close>, which unsigned
    subtraction computes exactly across a wrap of the counter; the model keeps the counter
    unbounded and the difference as a subtraction of naturals.
  \<^item> \<open>rx_script\<close> scripts the driver's answers to the successive \<^verbatim>\<open>twai_receive\<close> calls:
    the frame returned (\<open>None\<close> for any failure) and the milliseconds the call took. Once the
    script is used up, a call times out after the ticks it was given.
  \<^item> \<open>tx_script\<close>, \<open>install_script\<close> and \<open>start_script\<close> script the results of
    \<^verbatim>\<open>twai_transmit\<close> (with the time taken), \<^verbatim>\<open>twai_driver_install\<close> and \<^verbatim>\<open>twai_start\<close>;
    once used up, a call succeeds at once.
  \<^item> \<open>tx_log\<close>, \<open>timing_log\<close> and \<open>progress_log\<close> record what the program handed to
    \<^verbatim>\<open>twai_transmit\<close> (with the clock at the call), \<^verbatim>\<open>twai_driver_install\<close> and
    \<^verbatim>\<open>updateScanProgress\<close>, in call order.

  Serial output and the frame counter that \<^verbatim>\<open>listenForCANTraffic\<close> paints are not modelled.
\<close>

datatype twai_timing = TIMING_1MBITS | TIMING_500KBITS | TIMING_250KBITS | TIMING_125KBITS

record kiosk =
  detectedCodes :: "FaultCode list"
  activeECUs :: "u16 list"
  vehicleDetected :: bool
  clock :: nat
  rx_script :: "(twai_message option \<times> nat) list"
  tx_script :: "(bool \<times> nat) list"
  install_script :: "bool list"
  start_script :: "bool list"
  tx_log :: "(nat \<times> twai_message) list"
  timing_log :: "twai_timing list"
  progress_log :: "(string \<times> int) list"

definition TOTAL_SCAN_TIMEOUT_MS :: nat where
  "TOTAL_SCAN_TIMEOUT_MS = 45 * 1000"

definition BAUD_DETECT_TIMEOUT_MS :: nat where
  "BAUD_DETECT_TIMEOUT_MS = 2000"

definition TRAFFIC_LISTEN_TIMEOUT_MS :: nat where
  "TRAFFIC_LISTEN_TIMEOUT_MS = 5000"

definition ECU_PROBE_TIMEOUT_MS :: nat where
  "ECU_PROBE_TIMEOUT_MS = 15000"

definition OBD2_ADDRESSES :: "u16 list" where
  "OBD2_ADDRESSES =
     [0x7E0, 0x7E1, 0x7E2, 0x7E3, 0x7E4, 0x7E5, 0x7E6, 0x7E7,
      0x7E8, 0x7E9, 0x7EA, 0x7EB, 0x7EC, 0x7ED, 0x7EE, 0x7EF]"

definition NUM_ECUS :: nat where
  "NUM_ECUS = length OBD2_ADDRESSES"

definition millis :: "kiosk \<Rightarrow> nat" where
  "millis s = clock s"

definition delay :: "nat \<Rightarrow> kiosk \<Rightarrow> kiosk" where
  "delay ms s = s\<lparr>clock := clock s + ms\<rparr>"

definition twai_receive :: "nat \<Rightarrow> kiosk \<Rightarrow> twai_message option \<times> kiosk" where
  "twai_receive ticks s =
     (case rx_script s of
        [] \<Rightarrow> (None, s\<lparr>clock := clock s + ticks\<rparr>)
      | (r, d) # rest \<Rightarrow> (r, s\<lparr>clock := clock s + d, rx_script := rest\<rparr>))"

definition twai_transmit :: "twai_message \<Rightarrow> nat \<Rightarrow> kiosk \<Rightarrow> bool \<times> kiosk" where
  "twai_transmit msg ticks s =
     (case tx_script s of
        [] \<Rightarrow> (True, s\<lparr>tx_log := tx_log s @ [(clock s, msg)]\<rparr>)
      | (ok, d) # rest \<Rightarrow>
          (ok, s\<lparr>clock := clock s + d, tx_script := rest,
               tx_log := tx_log s @ [(clock s, msg)]\<rparr>))"

definition twai_driver_install :: "twai_timing \<Rightarrow> kiosk \<Rightarrow> bool \<times> kiosk" where
  "twai_driver_install t_config s =
     (case install_script s of
        [] \<Rightarrow> (True, s\<lparr>timing_log := timing_log s @ [t_config]\<rparr>)
      | ok # rest \<Rightarrow>
          (ok, s\<lparr>install_script := rest, timing_log := timing_log s @ [t_config]\<rparr>))"

definition twai_start :: "kiosk \<Rightarrow> bool \<times> kiosk" where
  "twai_start s =
     (case start_script s of
        [] \<Rightarrow> (True, s)
      | ok # rest \<Rightarrow> (ok, s\<lparr>start_script := rest\<rparr>))"

text \<open>
  \<^verbatim>\<open>updateScanProgress(message, percentage)\<close> paints the message and the bar; the model
  records the call.
\<close>

definition updateScanProgress :: "string \<Rightarrow> int \<Rightarrow> kiosk \<Rightarrow> kiosk" where
  "updateScanProgress message percentage s =
     s\<lparr>progress_log := progress_log s @ [(message, percentage)]\<rparr>"

section \<open>\<^verbatim>\<open>reinitializeCAN\<close> and \<^verbatim>\<open>autoDetectCANBaudRate\<close>\<close>

text \<open>
  \<^verbatim>\<open>twai_stop()\<close> and \<^verbatim>\<open>twai_driver_uninstall()\<close> come first; the source ignores their
  results and they change nothing the model records. A bit rate outside the four known ones
  returns \<^verbatim>\<open>false\<close> before the driver is installed.
\<close>

definition reinitializeCAN :: "u32 \<Rightarrow> kiosk \<Rightarrow> bool \<times> kiosk" where
  "reinitializeCAN baudRate s =
     (if baudRate = 1000000 \<or> baudRate = 500000 \<or> baudRate = 250000 \<or> baudRate = 125000 then
        (let t_config =
               (if baudRate = 1000000 then TIMING_1MBITS
                else if baudRate = 500000 then TIMING_500KBITS
                else if baudRate = 250000 then TIMING_250KBITS
                else TIMING_125KBITS);
             (installed, s1) = twai_driver_install t_config s
         in if \<not> installed then (False, s1)
            else (let (started, s2) = twai_start s1
                  in if \<not> started then (False, s2) else (True, s2)))
      else (False, s))"

text \<open>
  The listening loop of one candidate:
  \<^verbatim>\<open>while (millis() - startTime < BAUD_DETECT_TIMEOUT_MS) { if (twai_receive(&message, 100) == ESP_OK) { frameCount++; if (frameCount >= 3) return baudRate; } }\<close>.
  The result says whether the function returned from inside the loop.
\<close>

function autoDetect_window :: "nat \<Rightarrow> int \<Rightarrow> kiosk \<Rightarrow> bool \<times> kiosk" where
  "autoDetect_window startTime frameCount s =
     (if millis s - startTime < BAUD_DETECT_TIMEOUT_MS then
        (case twai_receive 100 s of
           (Some message, s') \<Rightarrow>
             (if frameCount + 1 \<ge> 3 then (True, s')
              else autoDetect_window startTime (frameCount + 1) s')
         | (None, s') \<Rightarrow> autoDetect_window startTime frameCount s')
      else (False, s))"
  by pat_completeness auto
termination
  by (relation "measures [\<lambda>(startTime, frameCount, s). length (rx_script s),
                          \<lambda>(startTime, frameCount, s). startTime + 2000 - clock s]")
     (auto simp: twai_receive_def millis_def BAUD_DETECT_TIMEOUT_MS_def split: list.splits prod.splits)

definition baudRates :: "u32 list" where
  "baudRates = [500000, 250000, 125000, 1000000]"

text \<open>
  One turn of the \<^verbatim>\<open>for\<close> loop over \<^verbatim>\<open>baudRates\<close>: reconfigure, and listen only when
  that succeeded. The result says whether the function returned this rate.
\<close>

definition try_baud :: "u32 \<Rightarrow> kiosk \<Rightarrow> bool \<times> kiosk" where
  "try_baud baudRate s =
     (let (ok, s1) = reinitializeCAN baudRate s
      in if ok then autoDetect_window (millis s1) 0 s1 else (False, s1))"

text \<open>The loop itself, as a recursion over the rates still to try.\<close>

fun autoDetect_loop :: "u32 list \<Rightarrow> kiosk \<Rightarrow> u32 \<times> kiosk" where
  "autoDetect_loop [] s = (0, s)"
| "autoDetect_loop (baudRate # rest) s =
     (let (found, s1) = try_baud baudRate s
      in if found then (baudRate, s1) else autoDetect_loop rest s1)"

definition autoDetectCANBaudRate :: "kiosk \<Rightarrow> u32 \<times> kiosk" where
  "autoDetectCANBaudRate s = autoDetect_loop baudRates s"

section \<open>\<^verbatim>\<open>listenForCANTraffic\<close>\<close>

text \<open>
  The loop \<^verbatim>\<open>while (millis() - startTime < duration_ms)\<close> with its locals
  \<^verbatim>\<open>frameCount\<close> and \<^verbatim>\<open>uniqueIDs\<close>; they feed the log only, so the function returns the
  state.
\<close>

function listen_loop :: "nat \<Rightarrow> nat \<Rightarrow> int \<Rightarrow> u32 list \<Rightarrow> kiosk \<Rightarrow> kiosk" where
  "listen_loop duration_ms startTime frameCount uniqueIDs s =
     (if millis s - startTime < duration_ms then
        (case twai_receive 50 s of
           (Some message, s') \<Rightarrow>
             listen_loop duration_ms startTime (frameCount + 1)
               (if msg_identifier message \<in> set uniqueIDs then uniqueIDs
                else uniqueIDs @ [msg_identifier message]) s'
         | (None, s') \<Rightarrow> listen_loop duration_ms startTime frameCount uniqueIDs s')
      else s)"
  by pat_completeness auto
termination
  by (relation "measures [\<lambda>(duration_ms, startTime, frameCount, uniqueIDs, s). length (rx_script s),
                          \<lambda>(duration_ms, startTime, frameCount, uniqueIDs, s).
                             startTime + duration_ms - clock s]")
     (auto simp: twai_receive_def millis_def split: list.splits prod.splits)

definition listenForCANTraffic :: "nat \<Rightarrow> kiosk \<Rightarrow> kiosk" where
  "listenForCANTraffic duration_ms s = listen_loop duration_ms (millis s) 0 [] s"

section \<open>\<^verbatim>\<open>probeOBD2ECUsWithTimeout\<close>\<close>

text \<open>The Mode 01 PID 00 request sent to \<^verbatim>\<open>ecuAddr\<close>.\<close>

definition supported_pid_query :: "u16 \<Rightarrow> twai_message" where
  "supported_pid_query ecuAddr =
     \<lparr>flags = 0, msg_identifier = ucast ecuAddr, data_length_code = 8,
      data = [0x02, 0x01, 0x00, 0x00, 0x00, 0x00, 0x00, 0x00]\<rparr>"

text \<open>
  The wait for an answer,
  \<^verbatim>\<open>while (millis() - ecuStart < 800) { if (twai_receive(&response, 50) == ESP_OK) { if (response.identifier == (ecuAddr + 8) || (response.identifier >= 0x7E8 && response.identifier <= 0x7EF)) { activeECUs.push_back(response.identifier); break; } } }\<close>.
  \<^verbatim>\<open>ecuAddr + 8\<close> is computed in \<^verbatim>\<open>int\<close> and compared as a 32-bit unsigned value;
  \<^verbatim>\<open>push_back\<close> narrows the identifier to 16 bits.
\<close>

function probe_wait :: "u16 \<Rightarrow> nat \<Rightarrow> kiosk \<Rightarrow> kiosk" where
  "probe_wait ecuAddr ecuStart s =
     (if millis s - ecuStart < 800 then
        (case twai_receive 50 s of
           (Some response, s') \<Rightarrow>
             (if msg_identifier response = ucast ecuAddr + 8 \<or>
                 (0x7E8 \<le> msg_identifier response \<and> msg_identifier response \<le> 0x7EF)
              then s'\<lparr>activeECUs := activeECUs s' @ [ucast (msg_identifier response)]\<rparr>
              else probe_wait ecuAddr ecuStart s')
         | (None, s') \<Rightarrow> probe_wait ecuAddr ecuStart s')
      else s)"
  by pat_completeness auto
termination
  by (relation "measures [\<lambda>(ecuAddr, ecuStart, s). length (rx_script s),
                          \<lambda>(ecuAddr, ecuStart, s). ecuStart + 800 - clock s]")
     (auto simp: twai_receive_def millis_def split: list.splits prod.splits)

text \<open>
  One turn of the \<^verbatim>\<open>for\<close> loop after its timeout check: the progress update on every
  fourth index, the request, the wait when the request was sent, and \<^verbatim>\<open>delay(50)\<close>.
\<close>

definition probe_address :: "nat \<Rightarrow> kiosk \<Rightarrow> kiosk" where
  "probe_address i s =
     (let ecuAddr = OBD2_ADDRESSES ! i;
          s1 = (if i mod 4 = 0
                then updateScanProgress
                       (''Checking ECU '' @ String_DEC (i + 1) @ ''/'' @ String_DEC NUM_ECUS)
                       (50 + (int i * 25) div int NUM_ECUS) s
                else s);
          (sent, s2) = twai_transmit (supported_pid_query ecuAddr) 100 s1;
          s3 = (if sent then probe_wait ecuAddr (millis s2) s2 else s2)
      in delay 50 s3)"

text \<open>
  The loop \<^verbatim>\<open>for (int i = 0; i < NUM_ECUS; i++) { if (millis() - startTime > timeout_ms) break; ... }\<close>
  from index \<open>i\<close> on.
\<close>

function probe_loop :: "nat \<Rightarrow> nat \<Rightarrow> nat \<Rightarrow> kiosk \<Rightarrow> kiosk" where
  "probe_loop i startTime timeout_ms s =
     (if i < NUM_ECUS then
        (if millis s - startTime > timeout_ms then s
         else probe_loop (i + 1) startTime timeout_ms (probe_address i s))
      else s)"
  by pat_completeness auto
termination
  by (relation "measure (\<lambda>(i, startTime, timeout_ms, s). NUM_ECUS - i)") simp_all

definition probeOBD2ECUsWithTimeout :: "nat \<Rightarrow> kiosk \<Rightarrow> kiosk" where
  "probeOBD2ECUsWithTimeout timeout_ms s = probe_loop 0 (millis s) timeout_ms s"

section \<open>\<^verbatim>\<open>scanAllDTCs\<close>\<close>

text \<open>The Mode 03 request sent to \<^verbatim>\<open>requestId\<close>.\<close>

definition stored_dtc_query :: "u16 \<Rightarrow> twai_message" where
  "stored_dtc_query requestId =
     \<lparr>flags = 0, msg_identifier = ucast requestId, data_length_code = 8,
      data = [0x01, 0x03, 0x00, 0x00, 0x00, 0x00, 0x00, 0x00]\<rparr>"

text \<open>
  The wait \<^verbatim>\<open>while (millis() - start < 1000)\<close>: it leaves the loop (\<^verbatim>\<open>break\<close>) with the
  first frame whose identifier is \<^verbatim>\<open>ecuId\<close>, or runs out with none.
\<close>

function dtc_wait :: "u16 \<Rightarrow> nat \<Rightarrow> kiosk \<Rightarrow> twai_message option \<times> kiosk" where
  "dtc_wait ecu start s =
     (if millis s - start < 1000 then
        (case twai_receive 50 s of
           (Some response, s') \<Rightarrow>
             (if msg_identifier response = ucast ecu then (Some response, s')
              else dtc_wait ecu start s')
         | (None, s') \<Rightarrow> dtc_wait ecu start s')
      else (None, s))"
  by pat_completeness auto
termination
  by (relation "measures [\<lambda>(ecu, start, s). length (rx_script s),
                          \<lambda>(ecu, start, s). start + 1000 - clock s]")
     (auto simp: twai_receive_def millis_def split: list.splits prod.splits)

text \<open>
  One turn of \<^verbatim>\<open>for (uint16_t ecuId : activeECUs)\<close>: the request identifier, the request,
  the wait, the decoding of the frame the wait ended on when its length code exceeds 2, and
  \<^verbatim>\<open>delay(100)\<close>.
\<close>

definition scan_ecu :: "u16 \<Rightarrow> kiosk \<Rightarrow> fault + kiosk" where
  "scan_ecu ecu s =
     (let requestId = (if 0x7E8 \<le> ecu \<and> ecu \<le> 0x7EF then ecu - 8 else ecu);
          (sent, s1) = twai_transmit (stored_dtc_query requestId) 100 s
      in if sent then
           (case dtc_wait ecu (millis s1) s1 of
              (Some response, s2) \<Rightarrow>
                (if data_length_code response > 2 then
                   (case parseAndStoreDTC (data response) (uint (data_length_code response)) ecu
                           (detectedCodes s2) of
                      Inl e \<Rightarrow> Inl e
                    | Inr codes \<Rightarrow> Inr (delay 100 (s2\<lparr>detectedCodes := codes\<rparr>)))
                 else Inr (delay 100 s2))
            | (None, s2) \<Rightarrow> Inr (delay 100 s2))
         else Inr (delay 100 s1))"

fun scanAllDTCs_loop :: "u16 list \<Rightarrow> kiosk \<Rightarrow> fault + kiosk" where
  "scanAllDTCs_loop [] s = Inr s"
| "scanAllDTCs_loop (ecu # rest) s =
     (case scan_ecu ecu s of
        Inl e \<Rightarrow> Inl e
      | Inr s' \<Rightarrow> scanAllDTCs_loop rest s')"

definition scanAllDTCs :: "kiosk \<Rightarrow> fault + kiosk" where
  "scanAllDTCs s =
     (if length (activeECUs s) = 0 then Inr s else scanAllDTCs_loop (activeECUs s) s)"

section \<open>\<^verbatim>\<open>performDiagnosticScan\<close>\<close>

definition performDiagnosticScan :: "kiosk \<Rightarrow> fault + kiosk" where
  "performDiagnosticScan s0 =
     (let scanStartTime = millis s0;
          s1 = s0\<lparr>detectedCodes := [], activeECUs := [], vehicleDetected := False\<rparr>;
          s2 = updateScanProgress ''Detecting vehicle...'' 0 s1;
          (detectedBaudRate, s3) = autoDetectCANBaudRate s2
      in if detectedBaudRate = 0 then
           Inr (delay 3000 (updateScanProgress ''No vehicle detected'' 100 s3))
         else if millis s3 - scanStartTime > TOTAL_SCAN_TIMEOUT_MS then
           Inr (delay 2000 (updateScanProgress ''Scan timeout'' 100 s3))
         else
           (let s4 = updateScanProgress ''Vehicle found! Analyzing...'' 25
                       (s3\<lparr>vehicleDetected := True\<rparr>);
                s5 = listenForCANTraffic TRAFFIC_LISTEN_TIMEOUT_MS s4;
                s6 = updateScanProgress ''Reading vehicle data...'' 50 s5
            in if millis s6 - scanStartTime > TOTAL_SCAN_TIMEOUT_MS then
                 Inr (delay 2000 (updateScanProgress ''Scan timeout'' 100 s6))
               else
                 (let s7 = probeOBD2ECUsWithTimeout ECU_PROBE_TIMEOUT_MS s6;
                      s8 = updateScanProgress ''Checking systems...'' 75 s7
                  in case scanAllDTCs s8 of
                       Inl e \<Rightarrow> Inl e
                     | Inr s9 \<Rightarrow> Inr (updateScanProgress ''Scan complete!'' 100 s9))))"

section \<open>Notions used to state the properties\<close>

text \<open>
  The conventional rendering of a 16-bit value: four upper-case hexadecimal digits, padded
  with zeros on the left. It is written from the specification's words
  (``conventional 4-hex-digit left-zero-padding'') and is what the string of the source is
  compared with.
\<close>

definition upper_hex_digit :: "nat \<Rightarrow> char" where
  "upper_hex_digit d = ''0123456789ABCDEF'' ! d"

definition hex4 :: "nat \<Rightarrow> string" where
  "hex4 n = [upper_hex_digit (n div 4096 mod 16), upper_hex_digit (n div 256 mod 16),
             upper_hex_digit (n div 16 mod 16), upper_hex_digit (n mod 16)]"

definition conventional_dtc :: "u8 \<Rightarrow> u8 \<Rightarrow> string" where
  "conventional_dtc byte1 byte2 = dtc_category byte1 # hex4 (unat (dtc_codeNumber byte1 byte2))"

text \<open>Reading a string of upper-case hexadecimal digits back as a number.\<close>

definition hex_digit_value :: "char \<Rightarrow> nat" where
  "hex_digit_value c =
     (if (48::nat) \<le> of_char c \<and> of_char c \<le> (57::nat) then of_char c - 48
      else if (65::nat) \<le> of_char c \<and> of_char c \<le> (70::nat) then of_char c - 55
      else 0)"

definition hex_value :: "string \<Rightarrow> nat" where
  "hex_value s = foldl (\<lambda>acc c. 16 * acc + hex_digit_value c) 0 s"

text \<open>
  A kiosk at boot with a given receive script and every other script empty, and a received
  frame with eight data bytes.
\<close>

definition kiosk_with :: "(twai_message option \<times> nat) list \<Rightarrow> kiosk" where
  "kiosk_with rx =
     \<lparr>detectedCodes = [], activeECUs = [], vehicleDetected = False, clock = 0,
      rx_script = rx, tx_script = [], install_script = [], start_script = [],
      tx_log = [], timing_log = [], progress_log = []\<rparr>"

definition frame :: "u32 \<Rightarrow> u8 \<Rightarrow> u8 list \<Rightarrow> twai_message" where
  "frame ident dlc bytes =
     \<lparr>flags = 0, msg_identifier = ident, data_length_code = dlc, data = bytes\<rparr>"

text \<open>
  The identifiers the discovery loop records while it probes \<open>ecuAddr\<close>: the request
  identifier plus 8, or anything in \<^verbatim>\<open>0x7E8..0x7EF\<close>.
\<close>

definition answers :: "u16 \<Rightarrow> u16 \<Rightarrow> bool" where
  "answers ecuAddr r \<longleftrightarrow> r = ecuAddr + 8 \<or> (0x7E8 \<le> r \<and> r \<le> 0x7EF)"

text \<open>The progress update of the discovery loop at index \<open>i\<close>: one on every fourth index.\<close>

definition probe_progress :: "nat \<Rightarrow> (string \<times> int) list" where
  "probe_progress i =
     (if i mod 4 = 0
      then [(''Checking ECU '' @ String_DEC (i + 1) @ ''/'' @ String_DEC NUM_ECUS,
             50 + (int i * 25) div int NUM_ECUS)]
      else [])"

text \<open>None of the script entries \<open>pre\<close> delivers a frame with the identifier of \<open>ecu\<close>.\<close>

definition no_answer_in :: "u16 \<Rightarrow> (twai_message option \<times> nat) list \<Rightarrow> bool" where
  "no_answer_in ecu pre \<longleftrightarrow> (\<forall>e\<in>set pre. \<forall>m. fst e = Some m \<longrightarrow> msg_identifier m \<noteq> ucast ecu)"

text \<open>
  A frame as the specification's data model has it, with eight data bytes and a length code
  of at most 8, and a receive script that delivers only such frames.
\<close>

definition wf_frame :: "twai_message \<Rightarrow> bool" where
  "wf_frame m \<longleftrightarrow> length (data m) = 8 \<and> data_length_code m \<le> 8"

definition wf_rx :: "kiosk \<Rightarrow> bool" where
  "wf_rx s \<longleftrightarrow> (\<forall>e\<in>set (rx_script s). \<forall>m. fst e = Some m \<longrightarrow> wf_frame m)"

text \<open>
  The pieces of \<^verbatim>\<open>performDiagnosticScan\<close>: the state after the reset and the first progress
  update, the rate that detection returns, the states at the three phase boundaries, the test
  \<^verbatim>\<open>millis() - scanStartTime > TOTAL_SCAN_TIMEOUT_MS\<close>, and the two early exits.
\<close>

definition scan_reset :: "kiosk \<Rightarrow> kiosk" where
  "scan_reset s0 =
     updateScanProgress ''Detecting vehicle...'' 0
       (s0\<lparr>detectedCodes := [], activeECUs := [], vehicleDetected := False\<rparr>)"

definition detected_rate :: "kiosk \<Rightarrow> u32" where
  "detected_rate s0 = fst (autoDetectCANBaudRate (scan_reset s0))"

definition after_detection :: "kiosk \<Rightarrow> kiosk" where
  "after_detection s0 = snd (autoDetectCANBaudRate (scan_reset s0))"

definition after_listening :: "kiosk \<Rightarrow> kiosk" where
  "after_listening s0 =
     updateScanProgress ''Reading vehicle data...'' 50
       (listenForCANTraffic TRAFFIC_LISTEN_TIMEOUT_MS
          (updateScanProgress ''Vehicle found! Analyzing...'' 25
             ((after_detection s0)\<lparr>vehicleDetected := True\<rparr>)))"

definition after_discovery :: "kiosk \<Rightarrow> kiosk" where
  "after_discovery s0 =
     updateScanProgress ''Checking systems...'' 75
       (probeOBD2ECUsWithTimeout ECU_PROBE_TIMEOUT_MS (after_listening s0))"

definition deadline_passed :: "kiosk \<Rightarrow> kiosk \<Rightarrow> bool" where
  "deadline_passed s0 s \<longleftrightarrow> millis s - millis s0 > TOTAL_SCAN_TIMEOUT_MS"

definition scan_timeout :: "kiosk \<Rightarrow> kiosk" where
  "scan_timeout s = delay 2000 (updateScanProgress ''Scan timeout'' 100 s)"

definition no_vehicle :: "kiosk \<Rightarrow> kiosk" where
  "no_vehicle s = delay 3000 (updateScanProgress ''No vehicle detected'' 100 s)"

text \<open>
  The condition under which the discovery loop records a received frame for \<open>ecuAddr\<close>, as the
  source writes it on the 32-bit identifier, and a stretch of script with no such frame.
\<close>

definition qualifies :: "u16 \<Rightarrow> twai_message \<Rightarrow> bool" where
  "qualifies ecuAddr response \<longleftrightarrow>
     msg_identifier response = ucast ecuAddr + 8 \<or>
     (0x7E8 \<le> msg_identifier response \<and> msg_identifier response \<le> 0x7EF)"

definition unqualified :: "u16 \<Rightarrow> (twai_message option \<times> nat) list \<Rightarrow> bool" where
  "unqualified ecuAddr pre \<longleftrightarrow> (\<forall>e\<in>set pre. \<forall>m. fst e = Some m \<longrightarrow> \<not> qualifies ecuAddr m)"

text \<open>
  A stretch of \<open>n\<close> receive calls that time out after their 50 ms, and the frames of an ECU
  answering on \<^verbatim>\<open>0x7E8\<close>: an answer to the Mode 01 request, two answers to the Mode 03
  request with three codes each, and one whose length code is 2.
\<close>

definition quiet :: "nat \<Rightarrow> (twai_message option \<times> nat) list" where
  "quiet n = replicate n (None, 50)"

definition pid_answer :: twai_message where
  "pid_answer = frame 0x7E8 8 [0x06, 0x41, 0x00, 0xBE, 0x1F, 0xA8, 0x13, 0x00]"

definition dtc_first :: twai_message where
  "dtc_first = frame 0x7E8 8 [0x07, 0x43, 0x01, 0x23, 0x41, 0x00, 0x81, 0x00]"

definition dtc_next :: twai_message where
  "dtc_next = frame 0x7E8 8 [0x07, 0x43, 0xC1, 0x00, 0x02, 0x34, 0x03, 0x45]"

definition dtc_short :: twai_message where
  "dtc_short = frame 0x7E8 2 [0x01, 0x43, 0x00, 0x00, 0x00, 0x00, 0x00, 0x00]"

text \<open>
  A discovery in which the ECU answers the first request after 10 ms and the receive call
  for the second address returns after 16 seconds.
\<close>

definition stalled_probe :: kiosk where
  "stalled_probe = kiosk_with [(Some pid_answer, 10), (None, 16000)]"

text \<open>
  Two states at the start of DTC collection, with two active ECUs: a bus that stays silent
  for a second, and one on which the too-short answer arrives.
\<close>

definition silent_ecu :: kiosk where
  "silent_ecu = (kiosk_with (quiet 20))\<lparr>activeECUs := [0x7E8, 0x7E9]\<rparr>"

definition short_answer :: kiosk where
  "short_answer = (kiosk_with [(Some dtc_short, 10)])\<lparr>activeECUs := [0x7E8, 0x7E9]\<rparr>"

text \<open>
  Whole scans. Three frames 5 ms apart let the first candidate be detected, and the bus is
  then quiet during the five seconds of listening. In \<open>one_ecu\<close> the ECU answers the first
  request and later the Mode 03 request; in \<open>two_answers\<close> a frame of the ECU also arrives
  while the second address is probed, and a second Mode 03 answer follows the first; in
  \<open>late_frame\<close> the receive call that delivers the ECU's answer returns after 50 seconds. In
  \<open>slow_detection\<close> the third frame of the detection arrives after 46 seconds, and in
  \<open>slow_listening\<close> the first receive call of the listening phase lasts that long.
\<close>

definition traffic :: "(twai_message option \<times> nat) list" where
  "traffic = [(Some (frame 0x100 8 [0, 0, 0, 0, 0, 0, 0, 0]), 5),
              (Some (frame 0x101 8 [0, 0, 0, 0, 0, 0, 0, 0]), 5),
              (Some (frame 0x100 8 [0, 0, 0, 0, 0, 0, 0, 0]), 5)]"

definition one_ecu :: kiosk where
  "one_ecu = kiosk_with (traffic @ quiet 100 @ (Some pid_answer, 10) # quiet 240
                           @ [(Some dtc_first, 10)])"

definition two_answers :: kiosk where
  "two_answers = kiosk_with (traffic @ quiet 100 @ (Some pid_answer, 10) # (Some pid_answer, 10)
                               # quiet 224 @ [(Some dtc_first, 10), (Some dtc_next, 10)])"

definition late_frame :: kiosk where
  "late_frame = kiosk_with (traffic @ quiet 100 @ (Some pid_answer, 50000) # quiet 20)"


definition slow_listening :: kiosk where
  "slow_listening = kiosk_with (traffic @ [(None, 46000)])"

text \<open>
  A state at the start of DTC collection with two answers of the one active ECU to come, and
  a wait for an answer to the request to \<^verbatim>\<open>0x7E0\<close> in which one call times out and two frames
  of the ECU follow.
\<close>

definition dtc_two_frames :: kiosk where
  "dtc_two_frames = (kiosk_with [(Some dtc_first, 10), (Some dtc_next, 10)])\<lparr>activeECUs := [0x7E8]\<rparr>"

definition answer_after_timeout :: kiosk where
  "answer_after_timeout = kiosk_with [(None, 50), (Some pid_answer, 10), (Some pid_answer, 10)]"

text \<open>A script entry that delivers a frame.\<close>

definition is_frame :: "twai_message option \<times> nat \<Rightarrow> bool" where
  "is_frame e = (fst e \<noteq> None)"

text \<open>
  Everything of the state but the clock, the receive script and the active-ECU list: what
  the waiting loops never touch.
\<close>

definition view :: "kiosk \<Rightarrow> FaultCode list \<times> bool \<times> (bool \<times> nat) list \<times> bool list \<times> bool list
    \<times> (nat \<times> twai_message) list \<times> twai_timing list \<times> (string \<times> int) list" where
  "view s = (detectedCodes s, vehicleDetected s, tx_script s, install_script s, start_script s,
             tx_log s, timing_log s, progress_log s)"

text \<open>
  A start-up in which installing the driver fails for the first candidate and starting it
  fails for the second, and five frames follow, the second \<^verbatim>\<open>twai_receive\<close> call timing
  out before the next frame arrives.
\<close>

definition c2_input :: kiosk where
  "c2_input = (kiosk_with [(Some (frame 0x100 8 [0, 0, 0, 0, 0, 0, 0, 0]), 10), (None, 100),
                           (Some (frame 0x101 8 [0, 0, 0, 0, 0, 0, 0, 0]), 20),
                           (Some (frame 0x100 8 [0, 0, 0, 0, 0, 0, 0, 0]), 30),
                           (Some (frame 0x102 8 [0, 0, 0, 0, 0, 0, 0, 0]), 40)])
               \<lparr>install_script := [False], start_script := [False]\<rparr>"

section \<open>The decoder\<close>

text \<open>The recursive equations of the loops are unfolded by hand, one turn at a time.\<close>

declare String_HEX.simps [simp del] String_DEC.simps [simp del] pad_dtc.simps [simp del]
  parseAndStoreDTC_loop.simps [simp del]

declare autoDetect_window.simps [simp del] listen_loop.simps [simp del] probe_wait.simps [simp del]
  probe_loop.simps [simp del] dtc_wait.simps [simp del]

subsection \<open>Bytes and bits\<close>

lemma or_add_nat: "b < 2 ^ n \<Longrightarrow> push_bit n a OR b = a * 2 ^ n + (b::nat)"
proof -
  assume b: "b < 2 ^ n"
  have "push_bit n a + b = push_bit n a OR b"
  proof (rule disjunctive_add)
    fix m
    show "\<not> bit (push_bit n a) m \<or> \<not> bit b m"
    proof (cases "m < n")
      case True then show ?thesis by (simp add: bit_push_bit_iff)
    next
      case False
      then have "2 ^ n \<le> (2::nat) ^ m" by simp
      with b have "b < 2 ^ m" by linarith
      then have "\<not> bit b m" by (simp add: bit_iff_odd)
      then show ?thesis by simp
    qed
  qed
  then show ?thesis by (simp add: push_bit_eq_mult)
qed

lemma and63: "unat ((b::8 word) AND 0x3F) = unat b mod 64"
proof -
  have "(0x3F :: 8 word) = mask 6" by (simp add: mask_eq_exp_minus_1)
  then have "b AND 0x3F = take_bit 6 b" by (simp only: take_bit_eq_mask)
  then have "unat (b AND 0x3F) = take_bit 6 (unat b)" by (simp only: unsigned_take_bit_eq)
  then show ?thesis by (simp add: take_bit_eq_mod)
qed

lemma bit192: "pos < 8 \<Longrightarrow> bit (192 :: 8 word) pos \<longleftrightarrow> 6 \<le> pos"
proof -
  assume "pos < 8"
  then have "pos \<in> {0, 1, 2, 3, 4, 5, 6, 7}" by auto
  then show ?thesis by (elim insertE) simp_all
qed

lemma and_c0: "(b::8 word) AND 0xC0 = push_bit 6 (drop_bit 6 b)"
proof (rule bit_word_eqI)
  fix n
  assume "n < LENGTH(8)"
  then have n8: "n < 8" by simp
  show "bit (b AND 0xC0) n = bit (push_bit 6 (drop_bit 6 b)) n"
    using bit192[OF n8] n8 by (auto simp: bit_and_iff bit_push_bit_iff bit_drop_bit_eq)
qed

lemma drop6_cases: "drop_bit 6 (b::8 word) = 0 \<or> drop_bit 6 b = 1 \<or> drop_bit 6 b = 2 \<or> drop_bit 6 b = 3"
proof -
  have "unat (drop_bit 6 b) = unat b div 64" by (simp add: unat_drop_bit_eq drop_bit_eq_div unat_div)
  moreover have "unat b < 256" using unsigned_less[of b] by simp
  ultimately have "unat (drop_bit 6 b) < 4" by simp
  then have "unat (drop_bit 6 b) = 0 \<or> unat (drop_bit 6 b) = 1 \<or> unat (drop_bit 6 b) = 2 \<or> unat (drop_bit 6 b) = 3" by arith
  then show ?thesis by (auto simp: word_unat_eq_iff)
qed

lemma category_top_bits: "dtc_category b1 = ''PCBU'' ! unat (drop_bit 6 b1)"
  using drop6_cases[of b1] by (auto simp: dtc_category_def and_c0)


lemma codeNumber_unat: "unat (dtc_codeNumber b1 b2) = unat (b1 AND 0x3F) * 256 + unat b2"
proof -
  have lt: "unat (b1 AND 0x3F) < 64" by (simp add: and63)
  have b2: "unat b2 < 2 ^ 8" using unsigned_less[of b2] by simp
  have u1: "unat (ucast (b1 AND 0x3F) :: u32) = unat (b1 AND 0x3F)"
    using lt by (simp add: unsigned_ucast_eq take_bit_nat_eq_self)
  have u2: "unat (ucast b2 :: u32) = unat b2"
    using b2 by (simp add: unsigned_ucast_eq take_bit_nat_eq_self)
  have "unat (push_bit 8 (ucast (b1 AND 0x3F) :: u32)) = take_bit 32 (push_bit 8 (unat (b1 AND 0x3F)))"
    by (simp add: unsigned_push_bit_eq u1)
  also have "\<dots> = push_bit 8 (unat (b1 AND 0x3F))"
    using lt by (simp add: take_bit_nat_eq_self push_bit_eq_mult)
  finally have u3: "unat (push_bit 8 (ucast (b1 AND 0x3F) :: u32)) = push_bit 8 (unat (b1 AND 0x3F))" .
  have "unat (dtc_codeNumber b1 b2) = push_bit 8 (unat (b1 AND 0x3F)) OR unat b2"
    unfolding dtc_codeNumber_def by (simp only: unsigned_or_eq u2 u3)
  also have "\<dots> = unat (b1 AND 0x3F) * 2 ^ 8 + unat b2"
    by (rule or_add_nat[OF b2])
  finally show ?thesis by simp
qed

lemma codeNumber_bound: "unat (dtc_codeNumber b1 b2) < 16384"
proof -
  have "unat (b1 AND 0x3F) < 64" by (simp add: and63)
  moreover have "unat b2 < 256" using unsigned_less[of b2] by simp
  ultimately show ?thesis unfolding codeNumber_unat by linarith
qed


subsection \<open>Rendering\<close>

lemma lt16_cases:
  "d < (16::nat) \<Longrightarrow> d = 0 \<or> d = 1 \<or> d = 2 \<or> d = 3 \<or> d = 4 \<or> d = 5 \<or> d = 6 \<or> d = 7 \<or>
     d = 8 \<or> d = 9 \<or> d = 10 \<or> d = 11 \<or> d = 12 \<or> d = 13 \<or> d = 14 \<or> d = 15"
  by arith

lemma char_of_upper:
  "char_of (65::nat) = CHR ''A''" "char_of (66::nat) = CHR ''B''" "char_of (67::nat) = CHR ''C''"
  "char_of (68::nat) = CHR ''D''" "char_of (69::nat) = CHR ''E''" "char_of (70::nat) = CHR ''F''"
  using char_of_char[of "CHR ''A''", where ?'a = nat] char_of_char[of "CHR ''B''", where ?'a = nat]
    char_of_char[of "CHR ''C''", where ?'a = nat] char_of_char[of "CHR ''D''", where ?'a = nat]
    char_of_char[of "CHR ''E''", where ?'a = nat] char_of_char[of "CHR ''F''", where ?'a = nat]
  by simp_all

lemma upper_digit: "d < 16 \<Longrightarrow> toUpperCase_char (digit_char d) = upper_hex_digit d"
proof -
  assume "d < 16"
  from lt16_cases[OF this] show ?thesis
    by (elim disjE) (simp_all add: toUpperCase_char_def digit_char_def upper_hex_digit_def char_of_upper)
qed

lemma hex_digit_value_upper: "d < 16 \<Longrightarrow> hex_digit_value (upper_hex_digit d) = d"
proof -
  assume "d < 16"
  from lt16_cases[OF this] show ?thesis
    by (elim disjE) (simp_all add: hex_digit_value_def upper_hex_digit_def)
qed

lemma upper_hex_digit_in: "d < 16 \<Longrightarrow> upper_hex_digit d \<in> set ''0123456789ABCDEF''"
proof -
  assume "d < 16"
  from lt16_cases[OF this] show ?thesis
    by (elim disjE) (simp_all add: upper_hex_digit_def)
qed

lemma String_HEX_1: "n < 16 \<Longrightarrow> String_HEX n = [digit_char n]"
  by (subst String_HEX.simps) simp

lemma String_HEX_2:
  assumes "16 \<le> n" "n < 256"
  shows "String_HEX n = [digit_char (n div 16), digit_char (n mod 16)]"
proof -
  have "n div 16 < 16" using assms by arith
  then have "String_HEX (n div 16) = [digit_char (n div 16)]" by (rule String_HEX_1)
  with assms show ?thesis by (subst String_HEX.simps) simp
qed

lemma String_HEX_3:
  assumes "256 \<le> n" "n < 4096"
  shows "String_HEX n = [digit_char (n div 256), digit_char (n div 16 mod 16), digit_char (n mod 16)]"
proof -
  have "16 \<le> n div 16" using assms by arith
  moreover have "n div 16 < 256" using assms by arith
  moreover have "n div 16 div 16 = n div 256" by (simp add: div_mult2_eq [symmetric])
  ultimately
  have "String_HEX (n div 16) = [digit_char (n div 256), digit_char (n div 16 mod 16)]"
    using String_HEX_2[of "n div 16"] by simp
  with assms show ?thesis by (subst String_HEX.simps) simp
qed

lemma String_HEX_4:
  assumes "4096 \<le> n" "n < 65536"
  shows "String_HEX n = [digit_char (n div 4096), digit_char (n div 256 mod 16),
                         digit_char (n div 16 mod 16), digit_char (n mod 16)]"
proof -
  have "256 \<le> n div 16" using assms by arith
  moreover have "n div 16 < 4096" using assms by arith
  moreover have "n div 16 div 256 = n div 4096" by (simp add: div_mult2_eq [symmetric])
  moreover have "n div 16 div 16 = n div 256" by (simp add: div_mult2_eq [symmetric])
  ultimately
  have "String_HEX (n div 16) =
      [digit_char (n div 4096), digit_char (n div 256 mod 16), digit_char (n div 16 mod 16)]"
    using String_HEX_3[of "n div 16"] by simp
  with assms show ?thesis by (subst String_HEX.simps) simp
qed


lemma toUpperCase_Cons: "toUpperCase (c # cs) = toUpperCase_char c # toUpperCase cs"
  by (simp add: toUpperCase_def)

lemma toUpperCase_Nil: "toUpperCase [] = []"
  by (simp add: toUpperCase_def)

lemma pad_dtc_shapes:
  "pad_dtc [c, d0] = [c, CHR ''0'', CHR ''0'', CHR ''0'', d0]"
  "pad_dtc [c, d1, d0] = [c, CHR ''0'', CHR ''0'', d1, d0]"
  "pad_dtc [c, d2, d1, d0] = [c, CHR ''0'', d2, d1, d0]"
  "pad_dtc [c, d3, d2, d1, d0] = [c, d3, d2, d1, d0]"
  by (simp_all add: pad_dtc.simps)

lemma render_hex4:
  assumes "n < 65536"
  shows "pad_dtc (toUpperCase (c # String_HEX n)) = toUpperCase_char c # hex4 n"
proof -
  have z: "upper_hex_digit 0 = CHR ''0''" by (simp add: upper_hex_digit_def)
  consider "n < 16" | "16 \<le> n" "n < 256" | "256 \<le> n" "n < 4096" | "4096 \<le> n"
    by linarith
  then show ?thesis
  proof cases
    case 1
    then have "n div 4096 = 0" "n div 256 = 0" "n div 16 = 0" "n mod 16 = n" by simp_all
    with 1 show ?thesis
      by (simp add: String_HEX_1 toUpperCase_Cons toUpperCase_Nil pad_dtc_shapes upper_digit hex4_def z)
  next
    case 2
    then have "n div 4096 = 0" "n div 256 = 0" "n div 16 < 16" by simp_all
    with 2 show ?thesis
      by (simp add: String_HEX_2 toUpperCase_Cons toUpperCase_Nil pad_dtc_shapes upper_digit hex4_def z)
  next
    case 3
    then have "n div 4096 = 0" "n div 256 < 16" by simp_all
    with 3 show ?thesis
      by (simp add: String_HEX_3 toUpperCase_Cons toUpperCase_Nil pad_dtc_shapes upper_digit hex4_def z)
  next
    case 4
    with assms have "n div 4096 < 16" by simp
    with 4 assms show ?thesis
      by (simp add: String_HEX_4 toUpperCase_Cons toUpperCase_Nil pad_dtc_shapes upper_digit hex4_def)
  qed
qed

lemma hex_value_hex4: "n < 65536 \<Longrightarrow> hex_value (hex4 n) = n"
proof -
  assume n: "n < 65536"
  have "hex_value (hex4 n) = 16 * (16 * (16 * (n div 4096 mod 16) + n div 256 mod 16) + n div 16 mod 16) + n mod 16"
    by (simp add: hex_value_def hex4_def hex_digit_value_upper)
  also have "n div 4096 mod 16 = n div 4096" using n by simp
  also have "16 * (n div 4096) + n div 256 mod 16 = n div 256"
    using div_mult_mod_eq[of "n div 256" 16] by (simp add: div_mult2_eq [symmetric] mult.commute)
  also have "16 * (n div 256) + n div 16 mod 16 = n div 16"
    using div_mult_mod_eq[of "n div 16" 16] by (simp add: div_mult2_eq [symmetric] mult.commute)
  also have "16 * (n div 16) + n mod 16 = n"
    using div_mult_mod_eq[of n 16] by (simp add: mult.commute)
  finally show ?thesis .
qed


lemma dtc_category_upper: "toUpperCase_char (dtc_category byte1) = dtc_category byte1"
  by (simp add: dtc_category_def toUpperCase_char_def)

lemma dtc_string_hex4:
  "dtc_string byte1 byte2 = dtc_category byte1 # hex4 (unat (dtc_codeNumber byte1 byte2))"
proof -
  have "unat (dtc_codeNumber byte1 byte2) < 65536"
    using codeNumber_bound[of byte1 byte2] by simp
  then show ?thesis
    by (simp add: dtc_string_def render_hex4 dtc_category_upper)
qed

lemma hex4_digits: "n < 65536 \<Longrightarrow> set (hex4 n) \<subseteq> set ''0123456789ABCDEF''"
proof -
  assume n: "n < 65536"
  have "upper_hex_digit (n div 4096 mod 16) \<in> set ''0123456789ABCDEF''"
    "upper_hex_digit (n div 256 mod 16) \<in> set ''0123456789ABCDEF''"
    "upper_hex_digit (n div 16 mod 16) \<in> set ''0123456789ABCDEF''"
    "upper_hex_digit (n mod 16) \<in> set ''0123456789ABCDEF''"
    by (rule upper_hex_digit_in, simp)+
  then show ?thesis unfolding hex4_def by simp
qed

subsection \<open>The loop over the byte pairs\<close>

lemma parse_loop_pairs:
  "0 \<le> i \<Longrightarrow> len \<le> int (length bytes) \<Longrightarrow>
   parseAndStoreDTC_loop i bytes len ecu codes =
     Inr (codes @ concat (map (\<lambda>k. if bytes ! (nat i + 2 * k) = 0 \<and> bytes ! (nat i + 2 * k + 1) = 0 then []
                                    else [make_fault (bytes ! (nat i + 2 * k)) (bytes ! (nat i + 2 * k + 1)) ecu])
                              [0..<nat ((len - i) div 2)]))"
proof (induction i bytes len ecu codes rule: parseAndStoreDTC_loop.induct)
  case (1 i bytes len ecu codes)
  show ?case
  proof (cases "i < len - 1")
    case False
    then have "nat ((len - i) div 2) = 0" by simp
    with False show ?thesis by (subst parseAndStoreDTC_loop.simps) simp
  next
    case True
    with "1.prems" have inb: "0 \<le> i \<and> i + 1 < int (length bytes)" by simp
    have q: "0 \<le> (len - (i + 2)) div 2" using True by simp
    have "(len - i) div 2 = (len - (i + 2)) div 2 + 1" by arith
    with q have "nat ((len - i) div 2) = Suc (nat ((len - (i + 2)) div 2))" by simp
    then obtain m where m: "nat ((len - i) div 2) = Suc m" "nat ((len - (i + 2)) div 2) = m"
      by simp
    have nat2: "nat (i + 2) = nat i + 2" "nat (i + 1) = nat i + 1" using "1.prems" by simp_all
    have upt: "[0..<Suc m] = 0 # map Suc [0..<m]" by (simp add: upt_conv_Cons map_Suc_upt del: upt_Suc)
    show ?thesis
    proof (cases "bytes ! nat i = 0 \<and> bytes ! nat (i + 1) = 0")
      case z: True
      have "parseAndStoreDTC_loop i bytes len ecu codes = parseAndStoreDTC_loop (i + 2) bytes len ecu codes"
        using True inb z by (subst parseAndStoreDTC_loop.simps) simp
      also have "\<dots> = Inr (codes @ concat (map (\<lambda>k. if bytes ! (nat (i + 2) + 2 * k) = 0 \<and> bytes ! (nat (i + 2) + 2 * k + 1) = 0 then []
                                    else [make_fault (bytes ! (nat (i + 2) + 2 * k)) (bytes ! (nat (i + 2) + 2 * k + 1)) ecu])
                              [0..<nat ((len - (i + 2)) div 2)]))"
        using True inb z "1.prems" by (intro "1.IH"(1)) simp_all
      finally show ?thesis
        using z by (simp only: m upt nat2) (simp add: comp_def add.assoc cong: if_cong)
    next
      case nz: False
      have "parseAndStoreDTC_loop i bytes len ecu codes =
            parseAndStoreDTC_loop (i + 2) bytes len ecu (codes @ [make_fault (bytes ! nat i) (bytes ! nat (i + 1)) ecu])"
      proof -
        from nz have c: "(bytes ! nat i = 0 \<and> bytes ! nat (i + 1) = 0) = False" by simp
        show ?thesis
          by (subst parseAndStoreDTC_loop.simps) (simp only: True inb Let_def c if_True if_False simp_thms)
      qed
      also have "\<dots> = Inr ((codes @ [make_fault (bytes ! nat i) (bytes ! nat (i + 1)) ecu]) @ concat (map (\<lambda>k. if bytes ! (nat (i + 2) + 2 * k) = 0 \<and> bytes ! (nat (i + 2) + 2 * k + 1) = 0 then []
                                    else [make_fault (bytes ! (nat (i + 2) + 2 * k)) (bytes ! (nat (i + 2) + 2 * k + 1)) ecu])
                              [0..<nat ((len - (i + 2)) div 2)]))"
        using True inb nz "1.prems" by (intro "1.IH"(2)) simp_all
      finally show ?thesis
        using nz nat2 by (simp only: m upt) (auto simp add: comp_def add.assoc cong: if_cong)
    qed
  qed
qed



subsection \<open>Evaluating the decoder on the specification's examples\<close>

lemma eval_P0123: "dtc_string 0x01 0x23 = ''P0123''"
  by (simp add: dtc_string_hex4 hex4_def upper_hex_digit_def dtc_category_def dtc_codeNumber_def)

lemma eval_C0310: "dtc_string 0x43 0x10 = ''C0310''"
  by (simp add: dtc_string_hex4 hex4_def upper_hex_digit_def dtc_category_def dtc_codeNumber_def)

section \<open>Baud-rate detection\<close>

subsection \<open>The receive call and the listening window\<close>

lemma twai_receive_Nil:
  "rx_script s = [] \<Longrightarrow> twai_receive ticks s = (None, s\<lparr>clock := clock s + ticks\<rparr>)"
  by (simp add: twai_receive_def)

lemma twai_receive_Cons:
  "rx_script s = (r, d) # rest \<Longrightarrow>
   twai_receive ticks s = (r, s\<lparr>clock := clock s + d, rx_script := rest\<rparr>)"
  by (simp add: twai_receive_def)

lemma is_frame_simps [simp]: "is_frame (None, d) = False" "is_frame (Some m, d) = True"
  by (simp_all add: is_frame_def)

lemma window_True:
  "autoDetect_window st fc t = (True, t') \<Longrightarrow> fc \<le> 2 \<Longrightarrow>
   \<exists>pre. rx_script t = pre @ rx_script t' \<and> pre \<noteq> [] \<and> is_frame (last pre)
       \<and> int (length (filter is_frame pre)) = 3 - fc
       \<and> clock t + sum_list (map snd (butlast pre)) - st < BAUD_DETECT_TIMEOUT_MS
       \<and> t' = t\<lparr>clock := clock t + sum_list (map snd pre), rx_script := rx_script t'\<rparr>"
proof (induction st fc t rule: autoDetect_window.induct)
  case (1 st fc s)
  from "1.prems"(1) have run: "millis s - st < BAUD_DETECT_TIMEOUT_MS"
    by (subst (asm) autoDetect_window.simps) (simp split: if_splits)
  show ?case
  proof (cases "rx_script s")
    case Nil
    let ?s1 = "s\<lparr>clock := clock s + 100\<rparr>"
    have rec: "autoDetect_window st fc s = autoDetect_window st fc ?s1"
      using run by (subst autoDetect_window.simps) (simp add: twai_receive_Nil[OF Nil])
    with "1.prems" have "autoDetect_window st fc ?s1 = (True, t')" by simp
    from "1.IH"(1)[OF run twai_receive_Nil[OF Nil, of 100, symmetric] refl this "1.prems"(2)]
    show ?thesis using Nil by auto
  next
    case (Cons e rest)
    obtain r d where e: "e = (r, d)" by (cases e)
    let ?s1 = "s\<lparr>clock := clock s + d, rx_script := rest\<rparr>"
    have rcv: "twai_receive 100 s = (r, ?s1)" using Cons e by (simp add: twai_receive_Cons)
    show ?thesis
    proof (cases r)
      case None
      have "autoDetect_window st fc s = autoDetect_window st fc ?s1"
        using run by (subst autoDetect_window.simps) (simp add: rcv None)
      with "1.prems" have "autoDetect_window st fc ?s1 = (True, t')" by simp
      from "1.IH"(1)[OF run rcv[symmetric] None this "1.prems"(2)]
      obtain pre where pre: "rx_script ?s1 = pre @ rx_script t'" "pre \<noteq> []" "is_frame (last pre)"
        "int (length (filter is_frame pre)) = 3 - fc"
        "clock ?s1 + sum_list (map snd (butlast pre)) - st < BAUD_DETECT_TIMEOUT_MS"
        "t' = ?s1\<lparr>clock := clock ?s1 + sum_list (map snd pre), rx_script := rx_script t'\<rparr>"
        by blast
      show ?thesis
        by (rule exI[of _ "e # pre"]) (use pre Cons e None in \<open>simp add: add.assoc\<close>)
    next
      case (Some m)
      show ?thesis
      proof (cases "fc + 1 \<ge> 3")
        case True
        have "autoDetect_window st fc s = (True, ?s1)"
          using run True by (subst autoDetect_window.simps) (simp add: rcv Some)
        with "1.prems" have t': "t' = ?s1" by simp
        show ?thesis
          by (rule exI[of _ "[e]"])
            (use t' Cons e Some True "1.prems"(2) run in \<open>simp add: millis_def\<close>)
      next
        case False
        have "autoDetect_window st fc s = autoDetect_window st (fc + 1) ?s1"
          using run False by (subst autoDetect_window.simps) (simp add: rcv Some)
        with "1.prems" have a: "autoDetect_window st (fc + 1) ?s1 = (True, t')" by simp
        from False have b: "fc + 1 \<le> 2" by simp
        from "1.IH"(2)[OF run rcv[symmetric] Some False a b]
        obtain pre where pre: "rx_script ?s1 = pre @ rx_script t'" "pre \<noteq> []" "is_frame (last pre)"
          "int (length (filter is_frame pre)) = 3 - (fc + 1)"
          "clock ?s1 + sum_list (map snd (butlast pre)) - st < BAUD_DETECT_TIMEOUT_MS"
          "t' = ?s1\<lparr>clock := clock ?s1 + sum_list (map snd pre), rx_script := rx_script t'\<rparr>"
          by blast
        show ?thesis
          by (rule exI[of _ "e # pre"]) (use pre Cons e Some in \<open>simp add: add.assoc\<close>)
      qed
    qed
  qed
qed


lemma receive_view:
  "twai_receive n s = (r, s') \<Longrightarrow>
   view s' = view s \<and> activeECUs s' = activeECUs s \<and> clock s \<le> clock s'
   \<and> (\<exists>pre. rx_script s = pre @ rx_script s')"
  by (auto simp: twai_receive_def view_def split: list.splits)

lemma window_view:
  "autoDetect_window st fc s = (b, s') \<Longrightarrow>
   view s' = view s \<and> activeECUs s' = activeECUs s \<and> clock s \<le> clock s'
   \<and> (\<exists>pre. rx_script s = pre @ rx_script s')"
proof (induction st fc s rule: autoDetect_window.induct)
  case (1 st fc s)
  show ?case
  proof (cases "millis s - st < BAUD_DETECT_TIMEOUT_MS")
    case False
    with "1.prems" show ?thesis by (subst (asm) autoDetect_window.simps) simp
  next
    case True
    obtain r s1 where rcv: "twai_receive 100 s = (r, s1)" by (cases "twai_receive 100 s")
    note rv = receive_view[OF rcv]
    from "1.prems" True rcv
    consider (ret) "r \<noteq> None" "s' = s1"
      | (some) m where "r = Some m" "\<not> 3 \<le> fc + 1" "autoDetect_window st (fc + 1) s1 = (b, s')"
      | (none) "r = None" "autoDetect_window st fc s1 = (b, s')"
      by (subst (asm) autoDetect_window.simps) (auto split: option.splits if_splits)
    then show ?thesis
    proof cases
      case ret
      with rv show ?thesis by simp
    next
      case some
      from "1.IH"(2)[OF True rcv[symmetric] some] rv show ?thesis by (auto; metis append.assoc)
    next
      case none
      from "1.IH"(1)[OF True rcv[symmetric] none] rv show ?thesis by (auto; metis append.assoc)
    qed
  qed
qed


lemma window_False:
  "autoDetect_window st fc t = (False, t') \<Longrightarrow> fc \<le> 2 \<Longrightarrow>
   BAUD_DETECT_TIMEOUT_MS \<le> millis t' - st
   \<and> (\<exists>pre. rx_script t = pre @ rx_script t' \<and> fc + int (length (filter is_frame pre)) < 3)"
proof (induction st fc t rule: autoDetect_window.induct)
  case (1 st fc s)
  show ?case
  proof (cases "millis s - st < BAUD_DETECT_TIMEOUT_MS")
    case False
    with "1.prems" have "t' = s" by (subst (asm) autoDetect_window.simps) simp
    with False "1.prems"(2) show ?thesis by simp
  next
    case True
    obtain r s1 where rcv: "twai_receive 100 s = (r, s1)" by (cases "twai_receive 100 s")
    from "1.prems" True rcv
    consider (some) m where "r = Some m" "\<not> 3 \<le> fc + 1" "autoDetect_window st (fc + 1) s1 = (False, t')"
      | (none) "r = None" "autoDetect_window st fc s1 = (False, t')"
      by (subst (asm) autoDetect_window.simps) (auto split: option.splits if_splits)
    then show ?thesis
    proof cases
      case some
      then have "fc + 1 \<le> 2" by simp
      from "1.IH"(2)[OF True rcv[symmetric] some this]
      obtain pre where pre: "BAUD_DETECT_TIMEOUT_MS \<le> millis t' - st"
        "rx_script s1 = pre @ rx_script t'" "fc + 1 + int (length (filter is_frame pre)) < 3"
        by blast
      from rcv some(1) obtain d where "rx_script s = (Some m, d) # rx_script s1"
        by (auto simp: twai_receive_def split: list.splits)
      with pre show ?thesis
        by (intro conjI exI[of _ "(Some m, d) # pre"]) simp_all
    next
      case none
      from "1.IH"(1)[OF True rcv[symmetric] none "1.prems"(2)]
      obtain pre where pre: "BAUD_DETECT_TIMEOUT_MS \<le> millis t' - st"
        "rx_script s1 = pre @ rx_script t'" "fc + int (length (filter is_frame pre)) < 3"
        by blast
      from rcv none(1) consider "rx_script s = rx_script s1" "rx_script s = []"
        | d where "rx_script s = (None, d) # rx_script s1"
        by (auto simp: twai_receive_def split: list.splits)
      then show ?thesis
      proof cases
        case 1
        with pre show ?thesis by (intro conjI exI[of _ "[]"]) simp_all
      next
        case 2
        with pre show ?thesis by (intro conjI exI[of _ "(None, d) # pre"]) simp_all
      qed
    qed
  qed
qed

lemma window_detects:
  "rx_script t = pre @ rest \<Longrightarrow> pre \<noteq> [] \<Longrightarrow> is_frame (last pre) \<Longrightarrow>
   fc + int (length (filter is_frame pre)) = 3 \<Longrightarrow> fc \<le> 2 \<Longrightarrow>
   clock t + sum_list (map snd (butlast pre)) - st < BAUD_DETECT_TIMEOUT_MS \<Longrightarrow>
   autoDetect_window st fc t = (True, t\<lparr>clock := clock t + sum_list (map snd pre), rx_script := rest\<rparr>)"
proof (induction pre arbitrary: t fc)
  case Nil
  then show ?case by simp
next
  case (Cons e pre)
  obtain r d where e: "e = (r, d)" by (cases e)
  let ?t1 = "t\<lparr>clock := clock t + d, rx_script := pre @ rest\<rparr>"
  from Cons.prems(1) e have rcv: "twai_receive 100 t = (r, ?t1)"
    by (simp add: twai_receive_Cons)
  have run: "millis t - st < BAUD_DETECT_TIMEOUT_MS"
    using Cons.prems(6) by (simp add: millis_def)
  show ?case
  proof (cases "pre = []")
    case True
    with Cons.prems(3,4) e obtain m where m: "r = Some m" "fc = 2"
      by (cases r) simp_all
    then have "autoDetect_window st fc t = (True, ?t1)"
      using run by (subst autoDetect_window.simps) (simp add: rcv)
    with True e show ?thesis by simp
  next
    case False
    then have last: "is_frame (last pre)" using Cons.prems(3) by simp
    have inside: "clock ?t1 + sum_list (map snd (butlast pre)) - st < BAUD_DETECT_TIMEOUT_MS"
      using Cons.prems(6) False e by (simp add: add.assoc)
    from False last have one: "1 \<le> length (filter is_frame pre)"
      by (metis One_nat_def Suc_leI filter_empty_conv last_in_set length_greater_0_conv)
    show ?thesis
    proof (cases r)
      case None
      have "autoDetect_window st fc t = autoDetect_window st fc ?t1"
        using run by (subst autoDetect_window.simps) (simp add: rcv None)
      also have "\<dots> = (True, ?t1\<lparr>clock := clock ?t1 + sum_list (map snd pre), rx_script := rest\<rparr>)"
        using Cons.prems(4,5) e None False last inside by (intro Cons.IH) simp_all
      finally show ?thesis using e by (simp add: add.assoc)
    next
      case (Some m)
      from Cons.prems(4) e Some one have small: "\<not> 3 \<le> fc + 1" by simp
      have "autoDetect_window st fc t = autoDetect_window st (fc + 1) ?t1"
        using run small by (subst autoDetect_window.simps) (simp add: rcv Some)
      also have "\<dots> = (True, ?t1\<lparr>clock := clock ?t1 + sum_list (map snd pre), rx_script := rest\<rparr>)"
        using Cons.prems(4) e Some False last inside small by (intro Cons.IH) simp_all
      finally show ?thesis using e by (simp add: add.assoc)
    qed
  qed
qed

lemma window_expires:
  "autoDetect_window st fc t = (False, t') \<Longrightarrow> fc \<le> 2 \<Longrightarrow>
   \<exists>pre k. rx_script t = pre @ rx_script t' \<and> fc + int (length (filter is_frame pre)) < 3
      \<and> (0 < k \<longrightarrow> rx_script t' = [])
      \<and> t' = t\<lparr>clock := clock t + sum_list (map snd pre) + 100 * k, rx_script := rx_script t'\<rparr>
      \<and> BAUD_DETECT_TIMEOUT_MS \<le> millis t' - st"
proof (induction st fc t rule: autoDetect_window.induct)
  case (1 st fc s)
  show ?case
  proof (cases "millis s - st < BAUD_DETECT_TIMEOUT_MS")
    case False
    with "1.prems" have "t' = s" by (subst (asm) autoDetect_window.simps) simp
    with False "1.prems"(2) show ?thesis
      by (intro exI[of _ "[]"] exI[of _ 0]) simp
  next
    case True
    show ?thesis
    proof (cases "rx_script s")
      case Nil
      let ?s1 = "s\<lparr>clock := clock s + 100\<rparr>"
      note rcv = twai_receive_Nil[OF Nil, of 100]
      have "autoDetect_window st fc s = autoDetect_window st fc ?s1"
        using True by (subst autoDetect_window.simps) (simp add: rcv)
      with "1.prems" have a: "autoDetect_window st fc ?s1 = (False, t')" by simp
      from "1.IH"(1)[OF True rcv[symmetric] refl a "1.prems"(2)]
      obtain pre k where pk: "rx_script ?s1 = pre @ rx_script t'"
        "fc + int (length (filter is_frame pre)) < 3"
        "t' = ?s1\<lparr>clock := clock ?s1 + sum_list (map snd pre) + 100 * k, rx_script := rx_script t'\<rparr>"
        "BAUD_DETECT_TIMEOUT_MS \<le> millis t' - st"
        by blast
      from pk(1) Nil have e: "pre = []" "rx_script t' = []" by simp_all
      show ?thesis
        by (intro exI[of _ "[]"] exI[of _ "Suc k"])
           (use pk e Nil "1.prems"(2) in \<open>simp add: add.assoc\<close>)
    next
      case (Cons e rest)
      obtain r d where e: "e = (r, d)" by (cases e)
      let ?s1 = "s\<lparr>clock := clock s + d, rx_script := rest\<rparr>"
      have rcv: "twai_receive 100 s = (r, ?s1)" using Cons e by (simp add: twai_receive_Cons)
      show ?thesis
      proof (cases r)
        case None
        have "autoDetect_window st fc s = autoDetect_window st fc ?s1"
          using True by (subst autoDetect_window.simps) (simp add: rcv None)
        with "1.prems" have a: "autoDetect_window st fc ?s1 = (False, t')" by simp
        from "1.IH"(1)[OF True rcv[symmetric] None a "1.prems"(2)]
        obtain pre k where pk: "rx_script ?s1 = pre @ rx_script t'"
          "fc + int (length (filter is_frame pre)) < 3" "0 < k \<longrightarrow> rx_script t' = []"
          "t' = ?s1\<lparr>clock := clock ?s1 + sum_list (map snd pre) + 100 * k, rx_script := rx_script t'\<rparr>"
          "BAUD_DETECT_TIMEOUT_MS \<le> millis t' - st"
          by blast
        show ?thesis
          by (intro exI[of _ "e # pre"] exI[of _ k])
             (use pk Cons e None in \<open>simp add: add.assoc\<close>)
      next
        case (Some m)
        from "1.prems"(1) True rcv Some have small: "\<not> 3 \<le> fc + 1"
          by (subst (asm) autoDetect_window.simps) (auto split: if_splits)
        have "autoDetect_window st fc s = autoDetect_window st (fc + 1) ?s1"
          using True small by (subst autoDetect_window.simps) (simp add: rcv Some)
        with "1.prems" have a: "autoDetect_window st (fc + 1) ?s1 = (False, t')" by simp
        from small have b: "fc + 1 \<le> 2" by simp
        from "1.IH"(2)[OF True rcv[symmetric] Some small a b]
        obtain pre k where pk: "rx_script ?s1 = pre @ rx_script t'"
          "fc + 1 + int (length (filter is_frame pre)) < 3" "0 < k \<longrightarrow> rx_script t' = []"
          "t' = ?s1\<lparr>clock := clock ?s1 + sum_list (map snd pre) + 100 * k, rx_script := rx_script t'\<rparr>"
          "BAUD_DETECT_TIMEOUT_MS \<le> millis t' - st"
          by blast
        show ?thesis
          by (intro exI[of _ "e # pre"] exI[of _ k])
             (use pk Cons e Some in \<open>simp add: add.assoc\<close>)
      qed
    qed
  qed
qed

subsection \<open>Reconfiguration and the loop over the candidates\<close>

lemma reinit_effect:
  "reinitializeCAN b s = (ok, s1) \<Longrightarrow>
   rx_script s1 = rx_script s \<and> clock s1 = clock s \<and> tx_log s1 = tx_log s
   \<and> progress_log s1 = progress_log s \<and> activeECUs s1 = activeECUs s
   \<and> detectedCodes s1 = detectedCodes s \<and> vehicleDetected s1 = vehicleDetected s
   \<and> tx_script s1 = tx_script s"
  by (auto simp: reinitializeCAN_def twai_driver_install_def twai_start_def Let_def
      split: if_splits list.splits prod.splits)

lemma reinit_timing:
  "reinitializeCAN 500000 s = (ok, s1) \<Longrightarrow> timing_log s1 = timing_log s @ [TIMING_500KBITS]"
  "reinitializeCAN 250000 s = (ok, s1) \<Longrightarrow> timing_log s1 = timing_log s @ [TIMING_250KBITS]"
  "reinitializeCAN 125000 s = (ok, s1) \<Longrightarrow> timing_log s1 = timing_log s @ [TIMING_125KBITS]"
  "reinitializeCAN 1000000 s = (ok, s1) \<Longrightarrow> timing_log s1 = timing_log s @ [TIMING_1MBITS]"
  by (auto simp: reinitializeCAN_def twai_driver_install_def twai_start_def Let_def
      split: if_splits list.splits prod.splits)

lemma try_baud_effect:
  "try_baud b s = (d, s1) \<Longrightarrow>
   tx_log s1 = tx_log s \<and> progress_log s1 = progress_log s \<and> activeECUs s1 = activeECUs s
   \<and> detectedCodes s1 = detectedCodes s \<and> vehicleDetected s1 = vehicleDetected s
   \<and> tx_script s1 = tx_script s \<and> clock s \<le> clock s1"
proof -
  assume a: "try_baud b s = (d, s1)"
  obtain ok s0 where r: "reinitializeCAN b s = (ok, s0)" by (cases "reinitializeCAN b s")
  note re = reinit_effect[OF r]
  show ?thesis
  proof (cases ok)
    case False
    with a r have "s1 = s0" by (simp add: try_baud_def)
    with re show ?thesis by simp
  next
    case True
    with a r have "autoDetect_window (millis s0) 0 s0 = (d, s1)" by (simp add: try_baud_def)
    from window_view[OF this] re show ?thesis by (simp add: view_def)
  qed
qed

lemma try_baud_timing:
  "try_baud 500000 s = (d, s1) \<Longrightarrow> timing_log s1 = timing_log s @ [TIMING_500KBITS]"
  "try_baud 250000 s = (d, s1) \<Longrightarrow> timing_log s1 = timing_log s @ [TIMING_250KBITS]"
  "try_baud 125000 s = (d, s1) \<Longrightarrow> timing_log s1 = timing_log s @ [TIMING_125KBITS]"
  "try_baud 1000000 s = (d, s1) \<Longrightarrow> timing_log s1 = timing_log s @ [TIMING_1MBITS]"
  by (auto simp: try_baud_def Let_def view_def split: prod.splits if_splits
      dest!: reinit_timing window_view)

lemma autoDetect_cascade:
  "autoDetectCANBaudRate s =
     (let (d1, s1) = try_baud 500000 s in if d1 then (500000, s1) else
      let (d2, s2) = try_baud 250000 s1 in if d2 then (250000, s2) else
      let (d3, s3) = try_baud 125000 s2 in if d3 then (125000, s3) else
      let (d4, s4) = try_baud 1000000 s3 in if d4 then (1000000, s4) else (0, s4))"
  by (simp add: autoDetectCANBaudRate_def baudRates_def split: prod.splits)

lemma autoDetect_timing_log:
  assumes "autoDetectCANBaudRate s = (r, s')"
  shows "\<exists>m. 1 \<le> m \<and> m \<le> 4
           \<and> timing_log s' = timing_log s @ take m [TIMING_500KBITS, TIMING_250KBITS, TIMING_125KBITS, TIMING_1MBITS]
           \<and> (if r = 0 then m = 4 else r = baudRates ! (m - 1))"
proof -
  obtain d1 s1 where t1: "try_baud 500000 s = (d1, s1)" by (cases "try_baud 500000 s")
  obtain d2 s2 where t2: "try_baud 250000 s1 = (d2, s2)" by (cases "try_baud 250000 s1")
  obtain d3 s3 where t3: "try_baud 125000 s2 = (d3, s3)" by (cases "try_baud 125000 s2")
  obtain d4 s4 where t4: "try_baud 1000000 s3 = (d4, s4)" by (cases "try_baud 1000000 s3")
  note tl = try_baud_timing(1)[OF t1] try_baud_timing(2)[OF t2] try_baud_timing(3)[OF t3]
    try_baud_timing(4)[OF t4]
  from assms t1 t2 t3 t4
  consider "d1" "r = 500000" "s' = s1" | "\<not> d1" "d2" "r = 250000" "s' = s2"
    | "\<not> d1" "\<not> d2" "d3" "r = 125000" "s' = s3"
    | "\<not> d1" "\<not> d2" "\<not> d3" "d4" "r = 1000000" "s' = s4"
    | "\<not> d1" "\<not> d2" "\<not> d3" "\<not> d4" "r = 0" "s' = s4"
    unfolding autoDetect_cascade by (auto split: if_splits)
  then show ?thesis
  proof cases
    case 1 then show ?thesis using tl by (intro exI[of _ 1]) (simp add: baudRates_def)
  next
    case 2 then show ?thesis using tl by (intro exI[of _ 2]) (simp add: baudRates_def)
  next
    case 3 then show ?thesis using tl by (intro exI[of _ 3]) (simp add: baudRates_def)
  next
    case 4 then show ?thesis using tl by (intro exI[of _ 4]) (simp add: baudRates_def)
  next
    case 5 then show ?thesis using tl by (intro exI[of _ 4]) (simp add: baudRates_def)
  qed
qed

lemma reinit_cases:
  assumes "b \<in> set baudRates" "reinitializeCAN b s = (ok, s1)"
  shows "ok = ((install_script s = [] \<or> hd (install_script s))
               \<and> (start_script s = [] \<or> hd (start_script s)))"
    and "install_script s1 = tl (install_script s)"
    and "start_script s1 = (if install_script s = [] \<or> hd (install_script s)
                            then tl (start_script s) else start_script s)"
  using assms
  by (auto simp: reinitializeCAN_def twai_driver_install_def twai_start_def baudRates_def Let_def
      split: list.splits if_splits prod.splits)

lemma try_baud_rx:
  assumes "try_baud b s = (d, s1)"
  shows "\<exists>pre. rx_script s = pre @ rx_script s1"
proof -
  obtain ok t where r: "reinitializeCAN b s = (ok, t)" by (cases "reinitializeCAN b s")
  note re = reinit_effect[OF r]
  show ?thesis
  proof (cases ok)
    case False
    with assms r have "s1 = t" by (simp add: try_baud_def)
    with re show ?thesis by simp
  next
    case True
    with assms r have "autoDetect_window (millis t) 0 t = (d, s1)" by (simp add: try_baud_def)
    from window_view[OF this] re show ?thesis by simp
  qed
qed

lemma frames_suffix:
  "rx_script s = pre @ rx_script s' \<Longrightarrow>
   length (filter is_frame (rx_script s')) \<le> length (filter is_frame (rx_script s))"
  by simp

lemma try_baud_quiet:
  assumes "length (filter is_frame (rx_script s)) < 3" "try_baud b s = (d, s1)"
  shows "\<not> d \<and> length (filter is_frame (rx_script s1)) < 3"
proof -
  from try_baud_rx[OF assms(2)] obtain p where p: "rx_script s = p @ rx_script s1" by blast
  with assms(1) have less: "length (filter is_frame (rx_script s1)) < 3" by simp
  have "\<not> d"
  proof
    assume d
    obtain ok t where r: "reinitializeCAN b s = (ok, t)" by (cases "reinitializeCAN b s")
    with assms(2) \<open>d\<close> have w: "ok" "autoDetect_window (millis t) 0 t = (True, s1)"
      by (auto simp: try_baud_def split: if_splits)
    from window_True[OF w(2)] obtain pre where
      pre: "rx_script t = pre @ rx_script s1" "int (length (filter is_frame pre)) = 3 - 0" by auto
    from reinit_effect[OF r] pre(1) have "rx_script s = pre @ rx_script s1" by simp
    then have "length (filter is_frame (rx_script s)) =
        length (filter is_frame pre) + length (filter is_frame (rx_script s1))" by simp
    with pre(2) have "3 \<le> length (filter is_frame (rx_script s))" by simp
    with assms(1) show False by simp
  qed
  with less show ?thesis by simp
qed

lemma loop_quiet:
  "length (filter is_frame (rx_script s)) < 3 \<Longrightarrow> fst (autoDetect_loop bs s) = 0"
proof (induction bs arbitrary: s)
  case Nil
  then show ?case by simp
next
  case (Cons b bs)
  obtain d s1 where t: "try_baud b s = (d, s1)" by (cases "try_baud b s")
  from try_baud_quiet[OF Cons.prems t] Cons.IH[of s1] t show ?case by simp
qed

lemma quiet_bus_no_vehicle:
  "length (filter is_frame (rx_script s)) < 3 \<Longrightarrow> fst (autoDetectCANBaudRate s) = 0"
  by (simp add: autoDetectCANBaudRate_def loop_quiet)

subsection \<open>Unfolding the environment on concrete states\<close>

lemmas eval_env = millis_def delay_def twai_receive_def twai_transmit_def twai_driver_install_def
  twai_start_def updateScanProgress_def kiosk_with_def frame_def
  BAUD_DETECT_TIMEOUT_MS_def TOTAL_SCAN_TIMEOUT_MS_def TRAFFIC_LISTEN_TIMEOUT_MS_def
  ECU_PROBE_TIMEOUT_MS_def

lemmas eval_detect = eval_env reinitializeCAN_def try_baud_def autoDetect_window.simps
  autoDetectCANBaudRate_def baudRates_def

section \<open>ECU discovery\<close>

subsection \<open>Identifiers\<close>

lemma response_range_u16:
  fixes r :: u16
  assumes "0x7E8 \<le> r" "r \<le> 0x7EF"
  shows "r \<in> {0x7E8, 0x7E9, 0x7EA, 0x7EB, 0x7EC, 0x7ED, 0x7EE, 0x7EF}"
proof -
  from assms have "2024 \<le> unat r" "unat r \<le> 2031" by (simp_all add: word_le_nat_alt)
  then have "unat r \<in> {2024, 2025, 2026, 2027, 2028, 2029, 2030, 2031}" by auto
  then show ?thesis by (auto simp: word_unat_eq_iff)
qed

lemma narrow_sum:
  fixes a :: u16
  shows "(ucast (ucast a + 8 :: u32) :: u16) = a + 8"
proof -
  have a: "unat a < 65536" using unsigned_less[of a] by simp
  then have ua: "unat (ucast a :: u32) = unat a"
    by (simp add: unsigned_ucast_eq take_bit_nat_eq_self)
  have "unat (ucast a + 8 :: u32) = unat a + 8"
    using a by (simp add: unat_word_ariths ua)
  then have "unat (ucast (ucast a + 8 :: u32) :: u16) = (unat a + 8) mod 65536"
    by (simp add: unsigned_ucast_eq take_bit_eq_mod)
  also have "\<dots> = unat (a + 8)" by (simp add: unat_word_ariths)
  finally show ?thesis by (simp add: word_unat_eq_iff)
qed

lemma narrow_identifier:
  fixes r :: u32 and a :: u16
  assumes "r = ucast a + 8 \<or> (0x7E8 \<le> r \<and> r \<le> 0x7EF)"
  shows "(ucast r :: u16) = a + 8 \<or> (0x7E8 \<le> (ucast r :: u16) \<and> (ucast r :: u16) \<le> 0x7EF)"
  using assms
proof
  assume "r = ucast a + 8"
  then show ?thesis by (simp add: narrow_sum)
next
  assume "0x7E8 \<le> r \<and> r \<le> 0x7EF"
  then have b: "2024 \<le> unat r" "unat r \<le> 2031" by (simp_all add: word_le_nat_alt)
  then have "unat (ucast r :: u16) = unat r" by (simp add: unsigned_ucast_eq take_bit_nat_eq_self)
  with b show ?thesis by (simp add: word_le_nat_alt)
qed


lemma probe_wait_effect:
  "view (probe_wait a st s) = view s \<and> clock s \<le> clock (probe_wait a st s)
   \<and> (\<exists>pre. rx_script s = pre @ rx_script (probe_wait a st s))
   \<and> (\<exists>ys. activeECUs (probe_wait a st s) = activeECUs s @ ys \<and> length ys \<le> 1
            \<and> (\<forall>r\<in>set ys. answers a r))"
proof (induction a st s rule: probe_wait.induct)
  case (1 a st s)
  show ?case
  proof (cases "millis s - st < 800")
    case False
    then have "probe_wait a st s = s" by (subst probe_wait.simps) simp
    then show ?thesis by simp
  next
    case True
    obtain r s1 where rcv: "twai_receive 50 s = (r, s1)" by (cases "twai_receive 50 s")
    note rv = receive_view[OF rcv]
    consider (hit) m where "r = Some m"
        "msg_identifier m = ucast a + 8 \<or> (0x7E8 \<le> msg_identifier m \<and> msg_identifier m \<le> 0x7EF)"
        "probe_wait a st s = s1\<lparr>activeECUs := activeECUs s1 @ [ucast (msg_identifier m)]\<rparr>"
      | (miss) m where "r = Some m"
        "\<not> (msg_identifier m = ucast a + 8 \<or> (0x7E8 \<le> msg_identifier m \<and> msg_identifier m \<le> 0x7EF))"
        "probe_wait a st s = probe_wait a st s1"
      | (none) "r = None" "probe_wait a st s = probe_wait a st s1"
    proof -
      have step: "probe_wait a st s =
          (case r of
             Some m \<Rightarrow>
               if msg_identifier m = ucast a + 8 \<or> (0x7E8 \<le> msg_identifier m \<and> msg_identifier m \<le> 0x7EF)
               then s1\<lparr>activeECUs := activeECUs s1 @ [ucast (msg_identifier m)]\<rparr>
               else probe_wait a st s1
           | None \<Rightarrow> probe_wait a st s1)"
        using True rcv by (subst probe_wait.simps) simp
      assume h: "\<And>m. r = Some m \<Longrightarrow>
        msg_identifier m = ucast a + 8 \<or> (0x7E8 \<le> msg_identifier m \<and> msg_identifier m \<le> 0x7EF) \<Longrightarrow>
        probe_wait a st s = s1\<lparr>activeECUs := activeECUs s1 @ [ucast (msg_identifier m)]\<rparr> \<Longrightarrow> thesis"
        "\<And>m. r = Some m \<Longrightarrow>
        \<not> (msg_identifier m = ucast a + 8 \<or> (0x7E8 \<le> msg_identifier m \<and> msg_identifier m \<le> 0x7EF)) \<Longrightarrow>
        probe_wait a st s = probe_wait a st s1 \<Longrightarrow> thesis"
        "r = None \<Longrightarrow> probe_wait a st s = probe_wait a st s1 \<Longrightarrow> thesis"
      show thesis
      proof (cases r)
        case None
        with step h(3) show ?thesis by simp
      next
        case (Some m)
        show ?thesis
        proof (cases "msg_identifier m = ucast a + 8 \<or> (0x7E8 \<le> msg_identifier m \<and> msg_identifier m \<le> 0x7EF)")
          case True
          with step Some h(1)[OF Some True] show ?thesis by simp
        next
          case False
          with step Some h(2)[OF Some False] show ?thesis by simp
        qed
      qed
    qed
    then show ?thesis
    proof cases
      case hit
      from narrow_identifier[OF hit(2)] have "answers a (ucast (msg_identifier m))"
        by (simp add: answers_def)
      with hit(3) rv show ?thesis by (simp add: view_def)
    next
      case miss
      from "1.IH"(2)[OF True rcv[symmetric] miss(1,2)] rv miss(3) show ?thesis
        by (auto; metis append.assoc)
    next
      case none
      from "1.IH"(1)[OF True rcv[symmetric] none(1)] rv none(2) show ?thesis
        by (auto; metis append.assoc)
    qed
  qed
qed

lemma transmit_effect:
  "twai_transmit m n s = (ok, s1) \<Longrightarrow>
   tx_log s1 = tx_log s @ [(clock s, m)] \<and> clock s \<le> clock s1 \<and> rx_script s1 = rx_script s
   \<and> activeECUs s1 = activeECUs s \<and> detectedCodes s1 = detectedCodes s
   \<and> progress_log s1 = progress_log s \<and> timing_log s1 = timing_log s
   \<and> vehicleDetected s1 = vehicleDetected s \<and> install_script s1 = install_script s
   \<and> start_script s1 = start_script s"
  by (auto simp: twai_transmit_def split: list.splits)

lemma probe_address_effect:
  "tx_log (probe_address i s) = tx_log s @ [(clock s, supported_pid_query (OBD2_ADDRESSES ! i))]
   \<and> progress_log (probe_address i s) = progress_log s @ probe_progress i
   \<and> detectedCodes (probe_address i s) = detectedCodes s
   \<and> vehicleDetected (probe_address i s) = vehicleDetected s
   \<and> timing_log (probe_address i s) = timing_log s
   \<and> clock s + 50 \<le> clock (probe_address i s)
   \<and> (\<exists>pre. rx_script s = pre @ rx_script (probe_address i s))
   \<and> (\<exists>ys. activeECUs (probe_address i s) = activeECUs s @ ys \<and> length ys \<le> 1
            \<and> (\<forall>r\<in>set ys. answers (OBD2_ADDRESSES ! i) r))"
proof -
  define s1 where "s1 = (if i mod 4 = 0
                then updateScanProgress
                       (''Checking ECU '' @ String_DEC (i + 1) @ ''/'' @ String_DEC NUM_ECUS)
                       (50 + (int i * 25) div int NUM_ECUS) s
                else s)"
  obtain sent s2 where tx: "twai_transmit (supported_pid_query (OBD2_ADDRESSES ! i)) 100 s1 = (sent, s2)"
    by (cases "twai_transmit (supported_pid_query (OBD2_ADDRESSES ! i)) 100 s1")
  define s3 where "s3 = (if sent then probe_wait (OBD2_ADDRESSES ! i) (millis s2) s2 else s2)"
  have pa: "probe_address i s = delay 50 s3"
    by (simp add: probe_address_def Let_def s1_def[symmetric] tx s3_def)
  have e1: "progress_log s1 = progress_log s @ probe_progress i" "clock s1 = clock s"
    "tx_log s1 = tx_log s" "rx_script s1 = rx_script s" "activeECUs s1 = activeECUs s"
    "detectedCodes s1 = detectedCodes s" "vehicleDetected s1 = vehicleDetected s"
    "timing_log s1 = timing_log s"
    by (simp_all add: s1_def updateScanProgress_def probe_progress_def)
  note e2 = transmit_effect[OF tx]
  have e3: "view s3 = view s2 \<and> clock s2 \<le> clock s3
   \<and> (\<exists>pre. rx_script s2 = pre @ rx_script s3)
   \<and> (\<exists>ys. activeECUs s3 = activeECUs s2 @ ys \<and> length ys \<le> 1
            \<and> (\<forall>r\<in>set ys. answers (OBD2_ADDRESSES ! i) r))"
    using probe_wait_effect[of "OBD2_ADDRESSES ! i" "millis s2" s2] by (simp add: s3_def)
  from e1 e2 e3 show ?thesis
    unfolding pa by (simp add: delay_def view_def)
qed

subsection \<open>The loop over the addresses\<close>

lemma fold_probe_split:
  "i \<le> j \<Longrightarrow> j \<le> m \<Longrightarrow>
   fold probe_address [i..<m] s = fold probe_address [j..<m] (fold probe_address [i..<j] s)"
proof -
  assume "i \<le> j" "j \<le> m"
  then have "[i..<m] = [i..<j] @ [j..<m]" by (metis le_Suc_ex upt_add_eq_append)
  then show ?thesis by simp
qed

lemma fold_probe_Suc:
  "i \<le> m \<Longrightarrow> fold probe_address [i..<Suc m] s = probe_address m (fold probe_address [i..<m] s)"
  by simp

lemma fold_probe_effect:
  "i \<le> m \<Longrightarrow>
   map snd (tx_log (fold probe_address [i..<m] s)) =
     map snd (tx_log s) @ map (\<lambda>j. supported_pid_query (OBD2_ADDRESSES ! j)) [i..<m]
   \<and> progress_log (fold probe_address [i..<m] s) = progress_log s @ concat (map probe_progress [i..<m])
   \<and> detectedCodes (fold probe_address [i..<m] s) = detectedCodes s
   \<and> vehicleDetected (fold probe_address [i..<m] s) = vehicleDetected s
   \<and> timing_log (fold probe_address [i..<m] s) = timing_log s
   \<and> clock s \<le> clock (fold probe_address [i..<m] s)
   \<and> (\<exists>ys. activeECUs (fold probe_address [i..<m] s) = activeECUs s @ ys \<and> length ys \<le> m - i
          \<and> (\<forall>r\<in>set ys. \<exists>j. i \<le> j \<and> j < m \<and> answers (OBD2_ADDRESSES ! j) r))"
proof (induction m)
  case 0
  then show ?case by simp
next
  case (Suc m)
  show ?case
  proof (cases "i = Suc m")
    case True
    then show ?thesis by simp
  next
    case False
    with Suc.prems have im: "i \<le> m" by simp
    let ?t = "fold probe_address [i..<m] s"
    note ih = Suc.IH[OF im]
    note pe = probe_address_effect[of m ?t]
    from ih obtain ys where ys: "activeECUs ?t = activeECUs s @ ys" "length ys \<le> m - i"
      "\<forall>r\<in>set ys. \<exists>j. i \<le> j \<and> j < m \<and> answers (OBD2_ADDRESSES ! j) r" by blast
    from pe obtain zs where zs: "activeECUs (probe_address m ?t) = activeECUs ?t @ zs"
      "length zs \<le> 1" "\<forall>r\<in>set zs. answers (OBD2_ADDRESSES ! m) r" by blast
    have act: "\<exists>ys. activeECUs (probe_address m ?t) = activeECUs s @ ys \<and> length ys \<le> Suc m - i
          \<and> (\<forall>r\<in>set ys. \<exists>j. i \<le> j \<and> j < Suc m \<and> answers (OBD2_ADDRESSES ! j) r)"
    proof (intro exI[of _ "ys @ zs"] conjI ballI)
      show "activeECUs (probe_address m ?t) = activeECUs s @ ys @ zs" using ys zs by simp
      show "length (ys @ zs) \<le> Suc m - i" using ys zs im by simp
      fix r assume "r \<in> set (ys @ zs)"
      then consider "r \<in> set ys" | "r \<in> set zs" by auto
      then show "\<exists>j. i \<le> j \<and> j < Suc m \<and> answers (OBD2_ADDRESSES ! j) r"
      proof cases
        case 1
        with ys(3) obtain j where "i \<le> j" "j < m" "answers (OBD2_ADDRESSES ! j) r" by blast
        then show ?thesis by (intro exI[of _ j]) simp
      next
        case 2
        with zs(3) im show ?thesis by (intro exI[of _ m]) simp
      qed
    qed
    from ih pe act im show ?thesis
      by (simp only: fold_probe_Suc[OF im]) simp
  qed
qed

lemma fold_probe_clock_mono:
  "i \<le> j \<Longrightarrow> j \<le> m \<Longrightarrow>
   clock (fold probe_address [i..<j] s) \<le> clock (fold probe_address [i..<m] s)"
  using fold_probe_effect[of j m "fold probe_address [i..<j] s"]
  by (simp add: fold_probe_split[of i j m s])

lemma probe_loop_fold:
  "i \<le> NUM_ECUS \<Longrightarrow>
   \<exists>m. i \<le> m \<and> m \<le> NUM_ECUS \<and> probe_loop i st T s = fold probe_address [i..<m] s
      \<and> (m < NUM_ECUS \<longrightarrow> T < millis (fold probe_address [i..<m] s) - st)
      \<and> (\<forall>j. i \<le> j \<and> j < m \<longrightarrow> \<not> T < millis (fold probe_address [i..<j] s) - st)"
proof (induction i st T s rule: probe_loop.induct)
  case (1 i st T s)
  show ?case
  proof (cases "i < NUM_ECUS \<and> \<not> T < millis s - st")
    case False
    then have "probe_loop i st T s = s" by (subst probe_loop.simps) auto
    with False "1.prems" show ?thesis by (intro exI[of _ i]) auto
  next
    case True
    then have step: "probe_loop i st T s = probe_loop (i + 1) st T (probe_address i s)"
      by (subst probe_loop.simps) simp
    from True have "i + 1 \<le> NUM_ECUS" by simp
    from "1.IH"[OF _ _ this] True
    obtain m where m: "i + 1 \<le> m" "m \<le> NUM_ECUS"
      "probe_loop (i + 1) st T (probe_address i s) = fold probe_address [i + 1..<m] (probe_address i s)"
      "m < NUM_ECUS \<longrightarrow> T < millis (fold probe_address [i + 1..<m] (probe_address i s)) - st"
      "\<forall>j. i + 1 \<le> j \<and> j < m \<longrightarrow> \<not> T < millis (fold probe_address [i + 1..<j] (probe_address i s)) - st"
      by auto
    have unroll: "\<And>j. i < j \<Longrightarrow> fold probe_address [i..<j] s = fold probe_address [i + 1..<j] (probe_address i s)"
      by (simp add: upt_conv_Cons)
    show ?thesis
    proof (intro exI[of _ m] conjI allI impI)
      show "i \<le> m" using m(1) by simp
      show "m \<le> NUM_ECUS" by (rule m(2))
      show "probe_loop i st T s = fold probe_address [i..<m] s"
        using step m(1,3) unroll[of m] by simp
      show "T < millis (fold probe_address [i..<m] s) - st" if "m < NUM_ECUS"
        using m(1,4) that unroll[of m] by simp
      show "\<not> T < millis (fold probe_address [i..<j] s) - st" if "i \<le> j \<and> j < m" for j
      proof (cases "j = i")
        case True
        with \<open>i < NUM_ECUS \<and> \<not> T < millis s - st\<close> show ?thesis by simp
      next
        case False
        with that have "i < j" by simp
        with m(5) that unroll[of j] show ?thesis by simp
      qed
    qed
  qed
qed

lemma map_query_upt:
  "n \<le> length xs \<Longrightarrow> map (\<lambda>j. f (xs ! j)) [0..<n] = map f (take n xs)"
  by (rule nth_equalityI) simp_all

lemma NUM_ECUS_16: "NUM_ECUS = 16"
  by (simp add: NUM_ECUS_def OBD2_ADDRESSES_def)

lemma distinct_queries: "distinct (map supported_pid_query OBD2_ADDRESSES)"
  by (simp add: OBD2_ADDRESSES_def supported_pid_query_def)

lemma answers_request:
  assumes "j < NUM_ECUS" "answers (OBD2_ADDRESSES ! j) r"
  shows "r - 8 \<in> set OBD2_ADDRESSES"
proof -
  from assms(2) consider "r = OBD2_ADDRESSES ! j + 8" | "0x7E8 \<le> r" "r \<le> 0x7EF"
    by (auto simp: answers_def)
  then show ?thesis
  proof cases
    case 1
    then have "r - 8 = OBD2_ADDRESSES ! j" by simp
    with assms(1) show ?thesis by (simp add: NUM_ECUS_def)
  next
    case 2
    from response_range_u16[OF this] show ?thesis
      by (auto simp: OBD2_ADDRESSES_def)
  qed
qed

section \<open>DTC collection\<close>

subsection \<open>The wait for an answer\<close>

lemma no_answer_in_simps [simp]:
  "no_answer_in ecu []"
  "no_answer_in ecu ((None, d) # pre) = no_answer_in ecu pre"
  "no_answer_in ecu ((Some m, d) # pre) = (msg_identifier m \<noteq> ucast ecu \<and> no_answer_in ecu pre)"
  by (auto simp: no_answer_in_def)

lemma no_answer_in_append [simp]:
  "no_answer_in ecu (p @ q) = (no_answer_in ecu p \<and> no_answer_in ecu q)"
  by (auto simp: no_answer_in_def)

lemma dtc_wait_prepend:
  assumes p: "rx_script s = p @ rx_script s1" "no_answer_in ecu p"
    and ih: "view s' = view s1 \<and> activeECUs s' = activeECUs s1 \<and> clock s1 \<le> clock s'
       \<and> (case r of
         None \<Rightarrow> (\<exists>pre. rx_script s1 = pre @ rx_script s' \<and> no_answer_in ecu pre)
                 \<and> \<not> millis s' - st < 1000
       | Some m \<Rightarrow> msg_identifier m = ucast ecu
                 \<and> (\<exists>pre d. rx_script s1 = pre @ (Some m, d) # rx_script s' \<and> no_answer_in ecu pre))"
    and rv: "view s1 = view s" "activeECUs s1 = activeECUs s" "clock s \<le> clock s1"
  shows "view s' = view s \<and> activeECUs s' = activeECUs s \<and> clock s \<le> clock s'
       \<and> (case r of
         None \<Rightarrow> (\<exists>pre. rx_script s = pre @ rx_script s' \<and> no_answer_in ecu pre)
                 \<and> \<not> millis s' - st < 1000
       | Some m \<Rightarrow> msg_identifier m = ucast ecu
                 \<and> (\<exists>pre d. rx_script s = pre @ (Some m, d) # rx_script s' \<and> no_answer_in ecu pre))"
proof (cases r)
  case None
  with ih obtain pre where "rx_script s1 = pre @ rx_script s'" "no_answer_in ecu pre" by auto
  with p have "rx_script s = (p @ pre) @ rx_script s' \<and> no_answer_in ecu (p @ pre)" by simp
  then have "\<exists>pre. rx_script s = pre @ rx_script s' \<and> no_answer_in ecu pre" by blast
  with None ih rv show ?thesis by simp
next
  case (Some m)
  with ih obtain pre d where "rx_script s1 = pre @ (Some m, d) # rx_script s'" "no_answer_in ecu pre"
    by auto
  with p have "rx_script s = (p @ pre) @ (Some m, d) # rx_script s' \<and> no_answer_in ecu (p @ pre)"
    by simp
  then have "\<exists>pre d. rx_script s = pre @ (Some m, d) # rx_script s' \<and> no_answer_in ecu pre"
    by blast
  with Some ih rv show ?thesis by simp
qed

lemma dtc_wait_effect:
  "dtc_wait ecu st s = (r, s') \<Longrightarrow>
   view s' = view s \<and> activeECUs s' = activeECUs s \<and> clock s \<le> clock s'
   \<and> (case r of
         None \<Rightarrow> (\<exists>pre. rx_script s = pre @ rx_script s' \<and> no_answer_in ecu pre)
                 \<and> \<not> millis s' - st < 1000
       | Some m \<Rightarrow> msg_identifier m = ucast ecu
                 \<and> (\<exists>pre d. rx_script s = pre @ (Some m, d) # rx_script s' \<and> no_answer_in ecu pre))"
proof (induction ecu st s rule: dtc_wait.induct)
  case (1 ecu st s)
  show ?case
  proof (cases "millis s - st < 1000")
    case False
    with "1.prems" have "r = None" "s' = s" by (subst (asm) dtc_wait.simps, simp)+
    with False show ?thesis by simp
  next
    case True
    obtain x s1 where rcv: "twai_receive 50 s = (x, s1)" by (cases "twai_receive 50 s")
    note rv = receive_view[OF rcv]
    have step: "dtc_wait ecu st s =
        (case x of
           Some m \<Rightarrow> if msg_identifier m = ucast ecu then (Some m, s1) else dtc_wait ecu st s1
         | None \<Rightarrow> dtc_wait ecu st s1)"
      using True rcv by (subst dtc_wait.simps) simp
    show ?thesis
    proof (cases x)
      case None
      with step "1.prems" have rec: "dtc_wait ecu st s1 = (r, s')" by simp
      from rcv None consider "rx_script s = rx_script s1" | d where "rx_script s = (None, d) # rx_script s1"
        by (auto simp: twai_receive_def split: list.splits)
      then obtain p where p: "rx_script s = p @ rx_script s1" "no_answer_in ecu p"
      proof cases
        case 1 then show ?thesis by (intro that[of "[]"]) simp_all
      next
        case 2 then show ?thesis by (intro that[of "[(None, d)]"]) simp_all
      qed
      from dtc_wait_prepend[OF p "1.IH"(1)[OF True rcv[symmetric] None rec]] rv
      show ?thesis by simp
    next
      case (Some m)
      from rcv Some obtain d where d: "rx_script s = (Some m, d) # rx_script s1"
        by (auto simp: twai_receive_def split: list.splits)
      show ?thesis
      proof (cases "msg_identifier m = ucast ecu")
        case True
        with step Some "1.prems" have "r = Some m" "s' = s1" by simp_all
        with rv d True show ?thesis by (auto intro!: exI[of _ "[]"])
      next
        case False
        with step Some "1.prems" have rec: "dtc_wait ecu st s1 = (r, s')" by simp
        have p: "rx_script s = [(Some m, d)] @ rx_script s1" "no_answer_in ecu [(Some m, d)]"
          using d False by simp_all
        from dtc_wait_prepend[OF p "1.IH"(2)[OF True rcv[symmetric] Some False rec]] rv
        show ?thesis by simp
      qed
    qed
  qed
qed

subsection \<open>One ECU and the loop over the active ECUs\<close>

lemma wf_rx_suffix: "wf_rx s \<Longrightarrow> rx_script s = pre @ rx_script s' \<Longrightarrow> wf_rx s'"
  by (auto simp: wf_rx_def)

lemma length_concat_le:
  "(\<And>x. x \<in> set xs \<Longrightarrow> length (f x) \<le> 1) \<Longrightarrow> length (concat (map f xs)) \<le> length xs"
proof (induction xs)
  case Nil
  then show ?case by simp
next
  case (Cons a xs)
  then have "length (f a) \<le> 1" "length (concat (map f xs)) \<le> length xs" by simp_all
  then show ?case by simp
qed

lemma parse_wf:
  assumes "wf_frame m" "2 < data_length_code m"
  shows "\<exists>new. parseAndStoreDTC (data m) (uint (data_length_code m)) ecu codes = Inr (codes @ new)
            \<and> length new \<le> 3 \<and> (\<forall>c\<in>set new. ecuId c = ecu)"
proof -
  let ?len = "uint (data_length_code m)"
  let ?f = "\<lambda>k. if data m ! (nat 2 + 2 * k) = 0 \<and> data m ! (nat 2 + 2 * k + 1) = 0 then []
                 else [make_fault (data m ! (nat 2 + 2 * k)) (data m ! (nat 2 + 2 * k + 1)) ecu]"
  from assms have len: "2 < ?len" "?len \<le> 8" "length (data m) = 8"
    by (simp_all add: wf_frame_def word_less_def word_le_def)
  then have le: "?len \<le> int (length (data m))" by simp
  have eq: "parseAndStoreDTC (data m) ?len ecu codes =
      Inr (codes @ concat (map ?f [0..<nat ((?len - 2) div 2)]))"
    unfolding parseAndStoreDTC_def by (rule parse_loop_pairs[OF _ le]) simp
  have "length (concat (map ?f [0..<nat ((?len - 2) div 2)])) \<le> length [0..<nat ((?len - 2) div 2)]"
    by (rule length_concat_le) simp
  also have "\<dots> \<le> 3" using len by simp
  finally have l3: "length (concat (map ?f [0..<nat ((?len - 2) div 2)])) \<le> 3" .
  have ids: "\<forall>c\<in>set (concat (map ?f [0..<nat ((?len - 2) div 2)])). ecuId c = ecu"
    by (auto simp: make_fault_def split: if_splits)
  from eq l3 ids show ?thesis by blast
qed

lemma scan_ecu_cases:
  assumes tx: "twai_transmit (stored_dtc_query (if 0x7E8 \<le> ecu \<and> ecu \<le> 0x7EF then ecu - 8 else ecu)) 100 s = (sent, s1)"
    and w: "dtc_wait ecu (millis s1) s1 = (r, s2)"
  shows "scan_ecu ecu s =
     (if sent then
        (case r of
           Some response \<Rightarrow>
             if data_length_code response > 2 then
               (case parseAndStoreDTC (data response) (uint (data_length_code response)) ecu (detectedCodes s2) of
                  Inl e \<Rightarrow> Inl e
                | Inr codes \<Rightarrow> Inr (delay 100 (s2\<lparr>detectedCodes := codes\<rparr>)))
             else Inr (delay 100 s2)
         | None \<Rightarrow> Inr (delay 100 s2))
      else Inr (delay 100 s1))"
  using tx w by (simp add: scan_ecu_def Let_def)

lemma scan_ecu_effect:
  assumes wf: "wf_rx s"
  shows "\<exists>s' new. scan_ecu ecu s = Inr s' \<and> detectedCodes s' = detectedCodes s @ new
           \<and> length new \<le> 3 \<and> (\<forall>c\<in>set new. ecuId c = ecu)
           \<and> activeECUs s' = activeECUs s \<and> progress_log s' = progress_log s
           \<and> vehicleDetected s' = vehicleDetected s \<and> timing_log s' = timing_log s
           \<and> clock s \<le> clock s' \<and> wf_rx s'
           \<and> (\<exists>t. tx_log s' = tx_log s @ [(t, stored_dtc_query (if 0x7E8 \<le> ecu \<and> ecu \<le> 0x7EF then ecu - 8 else ecu))])"
proof -
  let ?q = "stored_dtc_query (if 0x7E8 \<le> ecu \<and> ecu \<le> 0x7EF then ecu - 8 else ecu)"
  obtain sent s1 where tx: "twai_transmit ?q 100 s = (sent, s1)" by (cases "twai_transmit ?q 100 s")
  obtain r s2 where w: "dtc_wait ecu (millis s1) s1 = (r, s2)" by (cases "dtc_wait ecu (millis s1) s1")
  note te = transmit_effect[OF tx]
  note we = dtc_wait_effect[OF w]
  note sc = scan_ecu_cases[OF tx w]
  from te wf have wf1: "wf_rx s1" by (simp add: wf_rx_def)
  have wf2: "wf_rx s2"
  proof (cases r)
    case None
    with we obtain pre where "rx_script s1 = pre @ rx_script s2" by auto
    from wf_rx_suffix[OF wf1 this] show ?thesis .
  next
    case (Some m)
    with we obtain pre d where "rx_script s1 = (pre @ [(Some m, d)]) @ rx_script s2" by auto
    from wf_rx_suffix[OF wf1 this] show ?thesis .
  qed
  show ?thesis
  proof (cases "sent \<and> (\<exists>m. r = Some m \<and> 2 < data_length_code m)")
    case False
    then have "scan_ecu ecu s = Inr (delay 100 s2) \<or> scan_ecu ecu s = Inr (delay 100 s1)"
      unfolding sc by (cases r) (auto simp: not_less)
    then show ?thesis
    proof
      assume a: "scan_ecu ecu s = Inr (delay 100 s2)"
      show ?thesis
        by (intro exI[of _ "delay 100 s2"] exI[of _ "[]"])
          (use a te we wf2 in \<open>simp add: delay_def view_def wf_rx_def\<close>)
    next
      assume a: "scan_ecu ecu s = Inr (delay 100 s1)"
      show ?thesis
        by (intro exI[of _ "delay 100 s1"] exI[of _ "[]"])
          (use a te wf1 in \<open>simp add: delay_def wf_rx_def\<close>)
    qed
  next
    case True
    then obtain m where m: "sent" "r = Some m" "2 < data_length_code m" by blast
    with we obtain pre d where pre: "rx_script s1 = pre @ (Some m, d) # rx_script s2" by auto
    with wf1 have "wf_frame m" by (auto simp: wf_rx_def)
    from parse_wf[OF this m(3), of ecu "detectedCodes s2"]
    obtain new where new: "parseAndStoreDTC (data m) (uint (data_length_code m)) ecu (detectedCodes s2)
        = Inr (detectedCodes s2 @ new)" "length new \<le> 3" "\<forall>c\<in>set new. ecuId c = ecu" by blast
    have a: "scan_ecu ecu s = Inr (delay 100 (s2\<lparr>detectedCodes := detectedCodes s2 @ new\<rparr>))"
      unfolding sc using m new(1) by simp
    show ?thesis
      by (intro exI[of _ "delay 100 (s2\<lparr>detectedCodes := detectedCodes s2 @ new\<rparr>)"] exI[of _ new])
        (use a te we wf2 new in \<open>simp add: delay_def view_def wf_rx_def\<close>)
  qed
qed

lemma scan_loop_effect:
  "wf_rx s \<Longrightarrow>
   \<exists>s' new. scanAllDTCs_loop ecus s = Inr s' \<and> detectedCodes s' = detectedCodes s @ new
      \<and> (\<forall>e. length (filter (\<lambda>c. ecuId c = e) new) \<le> 3 * count_list ecus e)
      \<and> activeECUs s' = activeECUs s \<and> progress_log s' = progress_log s
      \<and> vehicleDetected s' = vehicleDetected s \<and> timing_log s' = timing_log s
      \<and> clock s \<le> clock s' \<and> wf_rx s'
      \<and> length (tx_log s') = length (tx_log s) + length ecus"
proof (induction ecus arbitrary: s)
  case Nil
  then show ?case by simp
next
  case (Cons ecu rest)
  from scan_ecu_effect[OF Cons.prems, of ecu]
  obtain s1 new1 where s1: "scan_ecu ecu s = Inr s1" "detectedCodes s1 = detectedCodes s @ new1"
    "length new1 \<le> 3" "\<forall>c\<in>set new1. ecuId c = ecu" "activeECUs s1 = activeECUs s"
    "progress_log s1 = progress_log s" "vehicleDetected s1 = vehicleDetected s"
    "timing_log s1 = timing_log s" "clock s \<le> clock s1" "wf_rx s1"
    "\<exists>t. tx_log s1 = tx_log s @ [(t, stored_dtc_query (if 0x7E8 \<le> ecu \<and> ecu \<le> 0x7EF then ecu - 8 else ecu))]"
    by blast
  from Cons.IH[OF s1(10)]
  obtain s' new where s': "scanAllDTCs_loop rest s1 = Inr s'" "detectedCodes s' = detectedCodes s1 @ new"
    "\<forall>e. length (filter (\<lambda>c. ecuId c = e) new) \<le> 3 * count_list rest e"
    "activeECUs s' = activeECUs s1" "progress_log s' = progress_log s1"
    "vehicleDetected s' = vehicleDetected s1" "timing_log s' = timing_log s1"
    "clock s1 \<le> clock s'" "wf_rx s'" "length (tx_log s') = length (tx_log s1) + length rest"
    by blast
  have cnt: "length (filter (\<lambda>c. ecuId c = e) (new1 @ new)) \<le> 3 * count_list (ecu # rest) e" for e
  proof (cases "e = ecu")
    case True
    have "length (filter (\<lambda>c. ecuId c = e) new1) \<le> length new1" by simp
    with s1(3) have "length (filter (\<lambda>c. ecuId c = e) new1) \<le> 3" by linarith
    with s'(3)[rule_format, of e] True show ?thesis by simp
  next
    case False
    with s1(4) have "filter (\<lambda>c. ecuId c = e) new1 = []" by (auto simp: filter_empty_conv)
    with s'(3)[rule_format, of e] False show ?thesis by simp
  qed
  show ?case
    by (intro exI[of _ s'] exI[of _ "new1 @ new"]) (use s1 s' cnt in auto)
qed

lemma scanAllDTCs_effect:
  assumes "wf_rx s"
  shows "\<exists>s' new. scanAllDTCs s = Inr s' \<and> detectedCodes s' = detectedCodes s @ new
      \<and> (\<forall>e. length (filter (\<lambda>c. ecuId c = e) new) \<le> 3 * count_list (activeECUs s) e)
      \<and> activeECUs s' = activeECUs s \<and> progress_log s' = progress_log s
      \<and> vehicleDetected s' = vehicleDetected s \<and> timing_log s' = timing_log s
      \<and> clock s \<le> clock s' \<and> wf_rx s'
      \<and> length (tx_log s') = length (tx_log s) + length (activeECUs s)"
proof (cases "activeECUs s = []")
  case True
  with assms show ?thesis by (intro exI[of _ s] exI[of _ "[]"]) (simp add: scanAllDTCs_def)
next
  case False
  then have "scanAllDTCs s = scanAllDTCs_loop (activeECUs s) s" by (simp add: scanAllDTCs_def)
  with scan_loop_effect[OF assms, of "activeECUs s"] show ?thesis by simp
qed

lemma no_answer_gives_None:
  assumes "no_answer_in ecu (rx_script s)"
  shows "fst (dtc_wait ecu st s) = None"
proof (cases "dtc_wait ecu st s")
  case (Pair r s')
  show ?thesis
  proof (cases r)
    case None
    with Pair show ?thesis by simp
  next
    case (Some m)
    with dtc_wait_effect[OF Pair] obtain pre d where
      "msg_identifier m = ucast ecu" "rx_script s = pre @ (Some m, d) # rx_script s'" by auto
    with assms show ?thesis by simp
  qed
qed

subsection \<open>The answer inside the window, and the window running out\<close>

lemma dtc_wait_unfold:
  "millis s - st < 1000 \<Longrightarrow> twai_receive 50 s = (r, s1) \<Longrightarrow>
   dtc_wait ecu st s =
     (case r of
        Some m \<Rightarrow> if msg_identifier m = ucast ecu then (Some m, s1) else dtc_wait ecu st s1
      | None \<Rightarrow> dtc_wait ecu st s1)"
  by (subst dtc_wait.simps) (simp split: option.split)

lemma dtc_wait_answers:
  "rx_script t = pre @ (Some m, d) # rest \<Longrightarrow> no_answer_in ecu pre \<Longrightarrow>
   msg_identifier m = ucast ecu \<Longrightarrow> clock t + sum_list (map snd pre) - st < 1000 \<Longrightarrow>
   dtc_wait ecu st t = (Some m, t\<lparr>clock := clock t + sum_list (map snd pre) + d, rx_script := rest\<rparr>)"
proof (induction pre arbitrary: t)
  case Nil
  let ?t1 = "t\<lparr>clock := clock t + d, rx_script := rest\<rparr>"
  from Nil have run: "millis t - st < 1000" by (simp add: millis_def)
  from Nil have rcv: "twai_receive 50 t = (Some m, ?t1)" by (simp add: twai_receive_Cons)
  from dtc_wait_unfold[OF run rcv, of ecu] Nil(3) show ?case by simp
next
  case (Cons e pre)
  obtain r dd where e: "e = (r, dd)" by (cases e)
  let ?t1 = "t\<lparr>clock := clock t + dd, rx_script := pre @ (Some m, d) # rest\<rparr>"
  from Cons.prems(4) have run: "millis t - st < 1000" by (simp add: millis_def)
  from Cons.prems(1) e have rcv: "twai_receive 50 t = (r, ?t1)" by (simp add: twai_receive_Cons)
  from Cons.prems(2) e have miss: "case r of None \<Rightarrow> True | Some m' \<Rightarrow> msg_identifier m' \<noteq> ucast ecu"
    by (cases r) simp_all
  from Cons.prems(2) e have rest: "no_answer_in ecu pre" by (cases r) simp_all
  from dtc_wait_unfold[OF run rcv, of ecu] miss
  have "dtc_wait ecu st t = dtc_wait ecu st ?t1" by (cases r) simp_all
  also have "\<dots> = (Some m, ?t1\<lparr>clock := clock ?t1 + sum_list (map snd pre) + d, rx_script := rest\<rparr>)"
    using Cons.prems(3,4) rest e by (intro Cons.IH) (simp_all add: add.assoc)
  finally show ?case using e by (simp add: add.assoc)
qed

lemma dtc_wait_expires:
  "rx_script t = pre @ rest \<Longrightarrow> no_answer_in ecu pre \<Longrightarrow>
   1000 \<le> clock t + sum_list (map snd pre) - st \<Longrightarrow>
   pre = [] \<or> clock t + sum_list (map snd (butlast pre)) - st < 1000 \<Longrightarrow>
   dtc_wait ecu st t = (None, t\<lparr>clock := clock t + sum_list (map snd pre), rx_script := rest\<rparr>)"
proof (induction pre arbitrary: t)
  case Nil
  then have "dtc_wait ecu st t = (None, t)" by (subst dtc_wait.simps) (simp add: millis_def)
  with Nil show ?case by simp
next
  case (Cons e pre)
  obtain r dd where e: "e = (r, dd)" by (cases e)
  let ?t1 = "t\<lparr>clock := clock t + dd, rx_script := pre @ rest\<rparr>"
  from Cons.prems(4) have run: "millis t - st < 1000"
    by (cases "pre = []") (simp_all add: millis_def)
  from Cons.prems(1) e have rcv: "twai_receive 50 t = (r, ?t1)" by (simp add: twai_receive_Cons)
  from Cons.prems(2) e have miss: "case r of None \<Rightarrow> True | Some m' \<Rightarrow> msg_identifier m' \<noteq> ucast ecu"
    by (cases r) simp_all
  from Cons.prems(2) e have rest: "no_answer_in ecu pre" by (cases r) simp_all
  from Cons.prems(4) e have inside: "pre = [] \<or> clock ?t1 + sum_list (map snd (butlast pre)) - st < 1000"
    by (cases "pre = []") (simp_all add: add.assoc)
  from dtc_wait_unfold[OF run rcv, of ecu] miss
  have "dtc_wait ecu st t = dtc_wait ecu st ?t1" by (cases r) simp_all
  also have "\<dots> = (None, ?t1\<lparr>clock := clock ?t1 + sum_list (map snd pre), rx_script := rest\<rparr>)"
    using Cons.prems(3) rest e inside by (intro Cons.IH) (simp_all add: add.assoc)
  finally show ?case using e by (simp add: add.assoc)
qed

lemma scan_ecu_decodes:
  assumes tx: "twai_transmit (stored_dtc_query (if 0x7E8 \<le> ecu \<and> ecu \<le> 0x7EF then ecu - 8 else ecu)) 100 s = (True, s1)"
    and w: "dtc_wait ecu (millis s1) s1 = (Some m, s2)"
    and long: "2 < data_length_code m" and wf: "wf_frame m"
  shows "scan_ecu ecu s = Inr (delay 100 (s2\<lparr>detectedCodes := detectedCodes s @
           concat (map (\<lambda>k. if data m ! (2 + 2 * k) = 0 \<and> data m ! (2 + 2 * k + 1) = 0 then []
                            else [make_fault (data m ! (2 + 2 * k)) (data m ! (2 + 2 * k + 1)) ecu])
                       [0..<nat ((uint (data_length_code m) - 2) div 2)])\<rparr>))"
proof -
  from wf have len: "uint (data_length_code m) \<le> int (length (data m))"
    by (simp add: wf_frame_def word_le_def)
  from transmit_effect[OF tx] dtc_wait_effect[OF w]
  have dc: "detectedCodes s2 = detectedCodes s" by (simp add: view_def)
  have z: "(0::int) \<le> 2" and n2: "nat (2::int) = 2" by simp_all
  note p = parse_loop_pairs[OF z len, of ecu "detectedCodes s", unfolded n2]
  have "parseAndStoreDTC (data m) (uint (data_length_code m)) ecu (detectedCodes s2) =
      Inr (detectedCodes s @
           concat (map (\<lambda>k. if data m ! (2 + 2 * k) = 0 \<and> data m ! (2 + 2 * k + 1) = 0 then []
                            else [make_fault (data m ! (2 + 2 * k)) (data m ! (2 + 2 * k + 1)) ecu])
                       [0..<nat ((uint (data_length_code m) - 2) div 2)]))"
    unfolding parseAndStoreDTC_def dc by (rule p)
  with long show ?thesis unfolding scan_ecu_cases[OF tx w] by simp
qed

section \<open>Traffic listening\<close>

lemma listen_effect:
  "view (listen_loop d st fc ids s) = view s \<and> activeECUs (listen_loop d st fc ids s) = activeECUs s
   \<and> clock s \<le> clock (listen_loop d st fc ids s)
   \<and> (\<exists>pre. rx_script s = pre @ rx_script (listen_loop d st fc ids s))"
proof (induction d st fc ids s rule: listen_loop.induct)
  case (1 d st fc ids s)
  show ?case
  proof (cases "millis s - st < d")
    case False
    then have "listen_loop d st fc ids s = s" by (subst listen_loop.simps) simp
    then show ?thesis by simp
  next
    case True
    obtain r s1 where rcv: "twai_receive 50 s = (r, s1)" by (cases "twai_receive 50 s")
    note rv = receive_view[OF rcv]
    show ?thesis
    proof (cases r)
      case None
      have "listen_loop d st fc ids s = listen_loop d st fc ids s1"
        using True rcv None by (subst listen_loop.simps) simp
      with "1.IH"(1)[OF True rcv[symmetric] None] rv show ?thesis
        by (auto; metis append.assoc)
    next
      case (Some m)
      have "listen_loop d st fc ids s = listen_loop d st (fc + 1)
               (if msg_identifier m \<in> set ids then ids else ids @ [msg_identifier m]) s1"
        using True rcv Some by (subst listen_loop.simps) simp
      with "1.IH"(2)[OF True rcv[symmetric] Some] rv show ?thesis
        by (auto; metis append.assoc)
    qed
  qed
qed

section \<open>The orchestrator\<close>

subsection \<open>The phases one after the other\<close>

lemma scan_cases:
  "performDiagnosticScan s0 =
     (if detected_rate s0 = 0 then Inr (no_vehicle (after_detection s0))
      else if deadline_passed s0 (after_detection s0) then Inr (scan_timeout (after_detection s0))
      else if deadline_passed s0 (after_listening s0) then Inr (scan_timeout (after_listening s0))
      else (case scanAllDTCs (after_discovery s0) of
              Inl e \<Rightarrow> Inl e
            | Inr s9 \<Rightarrow> Inr (updateScanProgress ''Scan complete!'' 100 s9)))"
  by (simp add: performDiagnosticScan_def detected_rate_def after_detection_def
      after_listening_def after_discovery_def deadline_passed_def scan_timeout_def
      no_vehicle_def scan_reset_def Let_def split: prod.split)

lemma autoDetect_loop_effect:
  "autoDetect_loop bs s = (r, s') \<Longrightarrow>
   tx_log s' = tx_log s \<and> progress_log s' = progress_log s \<and> activeECUs s' = activeECUs s
   \<and> detectedCodes s' = detectedCodes s \<and> vehicleDetected s' = vehicleDetected s
   \<and> tx_script s' = tx_script s \<and> clock s \<le> clock s'
   \<and> (\<exists>pre. rx_script s = pre @ rx_script s')"
proof (induction bs arbitrary: s)
  case Nil
  then show ?case by simp
next
  case (Cons b bs)
  obtain d s1 where t: "try_baud b s = (d, s1)" by (cases "try_baud b s")
  note e = try_baud_effect[OF t]
  from try_baud_rx[OF t] obtain p where p: "rx_script s = p @ rx_script s1" by blast
  show ?case
  proof (cases d)
    case True
    with Cons.prems t have "s' = s1" by simp
    with e p show ?thesis by auto
  next
    case False
    with Cons.prems t have "autoDetect_loop bs s1 = (r, s')" by simp
    from Cons.IH[OF this] obtain q where
      q: "rx_script s1 = q @ rx_script s'" and
      f: "tx_log s' = tx_log s1" "progress_log s' = progress_log s1" "activeECUs s' = activeECUs s1"
        "detectedCodes s' = detectedCodes s1" "vehicleDetected s' = vehicleDetected s1"
        "tx_script s' = tx_script s1" "clock s1 \<le> clock s'"
      by blast
    have "rx_script s = (p @ q) @ rx_script s'" using p q by simp
    then have "\<exists>pre. rx_script s = pre @ rx_script s'" by blast
    with e f show ?thesis by simp
  qed
qed

lemma after_detection_effect:
  "tx_log (after_detection s0) = tx_log s0
   \<and> progress_log (after_detection s0) = progress_log s0 @ [(''Detecting vehicle...'', 0)]
   \<and> activeECUs (after_detection s0) = [] \<and> detectedCodes (after_detection s0) = []
   \<and> vehicleDetected (after_detection s0) = False
   \<and> clock s0 \<le> clock (after_detection s0)
   \<and> (\<exists>pre. rx_script s0 = pre @ rx_script (after_detection s0))"
proof -
  obtain r s' where a: "autoDetect_loop baudRates (scan_reset s0) = (r, s')"
    by (cases "autoDetect_loop baudRates (scan_reset s0)")
  then have b: "after_detection s0 = s'"
    by (simp add: after_detection_def autoDetectCANBaudRate_def)
  from autoDetect_loop_effect[OF a] show ?thesis
    unfolding b by (simp add: scan_reset_def updateScanProgress_def)
qed

lemma after_listening_effect:
  "tx_log (after_listening s0) = tx_log s0
   \<and> progress_log (after_listening s0) =
       progress_log s0 @ [(''Detecting vehicle...'', 0), (''Vehicle found! Analyzing...'', 25),
                          (''Reading vehicle data...'', 50)]
   \<and> activeECUs (after_listening s0) = [] \<and> detectedCodes (after_listening s0) = []
   \<and> vehicleDetected (after_listening s0) = True
   \<and> clock s0 \<le> clock (after_listening s0)
   \<and> (\<exists>pre. rx_script s0 = pre @ rx_script (after_listening s0))"
proof -
  define t where "t = updateScanProgress ''Vehicle found! Analyzing...'' 25
             ((after_detection s0)\<lparr>vehicleDetected := True\<rparr>)"
  note d = after_detection_effect[of s0]
  from d obtain p where p: "rx_script s0 = p @ rx_script (after_detection s0)" by blast
  have t: "tx_log t = tx_log s0"
    "progress_log t = progress_log s0 @ [(''Detecting vehicle...'', 0), (''Vehicle found! Analyzing...'', 25)]"
    "activeECUs t = []" "detectedCodes t = []" "vehicleDetected t = True"
    "clock s0 \<le> clock t" "rx_script s0 = p @ rx_script t"
    using d p by (simp_all add: t_def updateScanProgress_def)
  note l = listen_effect[of TRAFFIC_LISTEN_TIMEOUT_MS "millis t" 0 "[]" t]
  from l obtain q where q: "rx_script t = q @ rx_script (listenForCANTraffic TRAFFIC_LISTEN_TIMEOUT_MS t)"
    by (auto simp: listenForCANTraffic_def)
  have al: "after_listening s0 =
     updateScanProgress ''Reading vehicle data...'' 50 (listenForCANTraffic TRAFFIC_LISTEN_TIMEOUT_MS t)"
    by (simp add: after_listening_def t_def)
  have "rx_script s0 = (p @ q) @ rx_script (after_listening s0)"
    using t(7) q by (simp add: al updateScanProgress_def)
  then have rx: "\<exists>pre. rx_script s0 = pre @ rx_script (after_listening s0)" by blast
  from l t rx show ?thesis
    by (simp add: al updateScanProgress_def listenForCANTraffic_def view_def)
qed

lemma fold_probe_rx:
  "i \<le> m \<Longrightarrow> \<exists>pre. rx_script s = pre @ rx_script (fold probe_address [i..<m] s)"
proof (induction m)
  case 0
  then show ?case by simp
next
  case (Suc m)
  show ?case
  proof (cases "i \<le> m")
    case False
    with Suc.prems have "i = Suc m" by simp
    then show ?thesis by simp
  next
    case True
    from Suc.IH[OF True] obtain p where p: "rx_script s = p @ rx_script (fold probe_address [i..<m] s)"
      by blast
    from probe_address_effect[of m "fold probe_address [i..<m] s"]
    obtain q where q: "rx_script (fold probe_address [i..<m] s) =
        q @ rx_script (probe_address m (fold probe_address [i..<m] s))" by blast
    have "rx_script s = (p @ q) @ rx_script (fold probe_address [i..<Suc m] s)"
      using p q True by simp
    then show ?thesis by blast
  qed
qed

lemma fold_probe_entries:
  "i \<le> m \<Longrightarrow>
   \<exists>ys. length ys = m - i \<and> activeECUs (fold probe_address [i..<m] s) = activeECUs s @ concat ys
      \<and> (\<forall>j < m - i. length (ys ! j) \<le> 1
            \<and> (\<forall>r\<in>set (ys ! j). answers (OBD2_ADDRESSES ! (i + j)) r))"
proof (induction m)
  case 0
  then show ?case by simp
next
  case (Suc m)
  show ?case
  proof (cases "i \<le> m")
    case False
    with Suc.prems have "i = Suc m" by simp
    then show ?thesis by simp
  next
    case True
    let ?t = "fold probe_address [i..<m] s"
    from Suc.IH[OF True] obtain ys where ys: "length ys = m - i"
      "activeECUs ?t = activeECUs s @ concat ys"
      "\<forall>j < m - i. length (ys ! j) \<le> 1 \<and> (\<forall>r\<in>set (ys ! j). answers (OBD2_ADDRESSES ! (i + j)) r)"
      by blast
    from probe_address_effect[of m ?t]
    obtain y where y: "activeECUs (probe_address m ?t) = activeECUs ?t @ y" "length y \<le> 1"
      "\<forall>r\<in>set y. answers (OBD2_ADDRESSES ! m) r" by blast
    have a: "length (ys @ [y]) = Suc m - i" using ys(1) True by simp
    have b: "activeECUs (fold probe_address [i..<Suc m] s) = activeECUs s @ concat (ys @ [y])"
      using True y(1) ys(2) by simp
    have c: "length ((ys @ [y]) ! j) \<le> 1
            \<and> (\<forall>r\<in>set ((ys @ [y]) ! j). answers (OBD2_ADDRESSES ! (i + j)) r)"
      if "j < Suc m - i" for j
    proof (cases "j < m - i")
      case True
      with ys(1,3) show ?thesis by (simp add: nth_append)
    next
      case False
      with that \<open>i \<le> m\<close> have j: "j = m - i" by simp
      with ys(1) have "(ys @ [y]) ! j = y" by (simp add: nth_append)
      moreover from j \<open>i \<le> m\<close> have "i + j = m" by simp
      ultimately show ?thesis using y(2,3) by simp
    qed
    from a b c show ?thesis by blast
  qed
qed

lemma after_discovery_effect:
  "\<exists>m. m \<le> NUM_ECUS
     \<and> progress_log (after_discovery s0) =
         progress_log s0 @ [(''Detecting vehicle...'', 0), (''Vehicle found! Analyzing...'', 25),
                            (''Reading vehicle data...'', 50)]
           @ concat (map probe_progress [0..<m]) @ [(''Checking systems...'', 75)]
     \<and> (m < NUM_ECUS \<longrightarrow>
           ECU_PROBE_TIMEOUT_MS < millis (after_discovery s0) - millis (after_listening s0))
     \<and> map snd (tx_log (after_discovery s0)) =
         map snd (tx_log s0) @ map supported_pid_query (take m OBD2_ADDRESSES)
     \<and> detectedCodes (after_discovery s0) = []
     \<and> vehicleDetected (after_discovery s0) = True
     \<and> clock s0 \<le> clock (after_discovery s0)
     \<and> (\<exists>pre. rx_script s0 = pre @ rx_script (after_discovery s0))
     \<and> (\<exists>ys. length ys = m \<and> activeECUs (after_discovery s0) = concat ys
          \<and> (\<forall>j < m. length (ys ! j) \<le> 1
                \<and> (\<forall>r\<in>set (ys ! j). answers (OBD2_ADDRESSES ! j) r)))"
proof -
  let ?t = "after_listening s0"
  note l = after_listening_effect[of s0]
  from l obtain p where p: "rx_script s0 = p @ rx_script ?t" by blast
  from probe_loop_fold[of 0 "millis ?t" ECU_PROBE_TIMEOUT_MS ?t]
  obtain m where m: "m \<le> NUM_ECUS"
    "probe_loop 0 (millis ?t) ECU_PROBE_TIMEOUT_MS ?t = fold probe_address [0..<m] ?t"
    "m < NUM_ECUS \<longrightarrow> ECU_PROBE_TIMEOUT_MS < millis (fold probe_address [0..<m] ?t) - millis ?t"
    by auto
  let ?u = "fold probe_address [0..<m] ?t"
  have ad: "after_discovery s0 = updateScanProgress ''Checking systems...'' 75 ?u"
    using m(2) by (simp add: after_discovery_def probeOBD2ECUsWithTimeout_def)
  note f = fold_probe_effect[of 0 m ?t]
  from fold_probe_rx[of 0 m ?t] obtain q where q: "rx_script ?t = q @ rx_script ?u" by auto
  from fold_probe_entries[of 0 m ?t] obtain ys where ys: "length ys = m"
    "activeECUs ?u = activeECUs ?t @ concat ys"
    "\<forall>j < m. length (ys ! j) \<le> 1 \<and> (\<forall>r\<in>set (ys ! j). answers (OBD2_ADDRESSES ! j) r)"
    by auto
  have len: "m \<le> length OBD2_ADDRESSES" using m(1) by (simp add: NUM_ECUS_def)
  have 1: "progress_log (after_discovery s0) =
         progress_log s0 @ [(''Detecting vehicle...'', 0), (''Vehicle found! Analyzing...'', 25),
                            (''Reading vehicle data...'', 50)]
           @ concat (map probe_progress [0..<m]) @ [(''Checking systems...'', 75)]"
    using f l by (simp add: ad updateScanProgress_def)
  have 2: "m < NUM_ECUS \<longrightarrow>
           ECU_PROBE_TIMEOUT_MS < millis (after_discovery s0) - millis (after_listening s0)"
    using m(3) by (simp add: ad updateScanProgress_def millis_def)
  have 3: "map snd (tx_log (after_discovery s0)) =
         map snd (tx_log s0) @ map supported_pid_query (take m OBD2_ADDRESSES)"
    using f l map_query_upt[OF len, of supported_pid_query] by (simp add: ad updateScanProgress_def)
  have 4: "detectedCodes (after_discovery s0) = []" "vehicleDetected (after_discovery s0) = True"
    "clock s0 \<le> clock (after_discovery s0)"
    using f l by (simp_all add: ad updateScanProgress_def)
  have "rx_script s0 = (p @ q) @ rx_script (after_discovery s0)"
    using p q by (simp add: ad updateScanProgress_def)
  then have 5: "\<exists>pre. rx_script s0 = pre @ rx_script (after_discovery s0)" by blast
  have 6: "\<exists>ys. length ys = m \<and> activeECUs (after_discovery s0) = concat ys
          \<and> (\<forall>j < m. length (ys ! j) \<le> 1
                \<and> (\<forall>r\<in>set (ys ! j). answers (OBD2_ADDRESSES ! j) r))"
    using ys l by (intro exI[of _ ys]) (simp add: ad updateScanProgress_def)
  from m(1) 1 2 3 4 5 6 show ?thesis by blast
qed

subsection \<open>The first qualifying frame and the progress updates of discovery\<close>

lemma unqualified_simps [simp]:
  "unqualified a []"
  "unqualified a ((None, d) # pre) = unqualified a pre"
  "unqualified a ((Some m, d) # pre) = (\<not> qualifies a m \<and> unqualified a pre)"
  by (auto simp: unqualified_def)

lemma unqualified_append [simp]:
  "unqualified a (p @ q) = (unqualified a p \<and> unqualified a q)"
  by (auto simp: unqualified_def)

lemma probe_wait_unfold:
  "millis s - st < 800 \<Longrightarrow> twai_receive 50 s = (r, s1) \<Longrightarrow>
   probe_wait a st s =
     (case r of
        Some m \<Rightarrow> if qualifies a m then s1\<lparr>activeECUs := activeECUs s1 @ [ucast (msg_identifier m)]\<rparr>
                  else probe_wait a st s1
      | None \<Rightarrow> probe_wait a st s1)"
  by (subst probe_wait.simps) (simp add: qualifies_def split: option.split)

lemma receive_cases:
  assumes "twai_receive n s = (r, s1)"
  shows "activeECUs s1 = activeECUs s
       \<and> ((rx_script s = [] \<and> rx_script s1 = [] \<and> r = None) \<or> (\<exists>d. rx_script s = (r, d) # rx_script s1))"
  using assms by (auto simp: twai_receive_def split: list.splits)

lemma probe_wait_first:
  "(activeECUs (probe_wait a st s) = activeECUs s
      \<and> (\<exists>pre. rx_script s = pre @ rx_script (probe_wait a st s) \<and> unqualified a pre))
   \<or> (\<exists>pre m d. rx_script s = pre @ (Some m, d) # rx_script (probe_wait a st s)
         \<and> unqualified a pre \<and> qualifies a m
         \<and> activeECUs (probe_wait a st s) = activeECUs s @ [ucast (msg_identifier m)])"
proof (induction a st s rule: probe_wait.induct)
  case (1 a st s)
  show ?case
  proof (cases "millis s - st < 800")
    case False
    then have "probe_wait a st s = s" by (subst probe_wait.simps) simp
    then show ?thesis by simp
  next
    case True
    obtain r s1 where rcv: "twai_receive 50 s = (r, s1)" by (cases "twai_receive 50 s")
    note u = probe_wait_unfold[OF True rcv, of a]
    note rc = receive_cases[OF rcv]
    let ?w = "probe_wait a st s1"
    have lift: ?thesis
      if eq: "probe_wait a st s = ?w"
        and sc: "\<exists>p. rx_script s = p @ rx_script s1 \<and> unqualified a p"
        and ih: "(activeECUs ?w = activeECUs s1
                   \<and> (\<exists>pre. rx_script s1 = pre @ rx_script ?w \<and> unqualified a pre))
                 \<or> (\<exists>pre m d. rx_script s1 = pre @ (Some m, d) # rx_script ?w
                       \<and> unqualified a pre \<and> qualifies a m
                       \<and> activeECUs ?w = activeECUs s1 @ [ucast (msg_identifier m)])"
    proof -
      from sc obtain p where p: "rx_script s = p @ rx_script s1" "unqualified a p" by blast
      from ih show ?thesis
      proof
        assume "activeECUs ?w = activeECUs s1
                   \<and> (\<exists>pre. rx_script s1 = pre @ rx_script ?w \<and> unqualified a pre)"
        then obtain q where q: "activeECUs ?w = activeECUs s1" "rx_script s1 = q @ rx_script ?w"
          "unqualified a q" by blast
        have "rx_script s = (p @ q) @ rx_script ?w" "unqualified a (p @ q)"
          using p q by simp_all
        with q(1) rc show ?thesis unfolding eq by metis
      next
        assume "\<exists>pre m d. rx_script s1 = pre @ (Some m, d) # rx_script ?w
                       \<and> unqualified a pre \<and> qualifies a m
                       \<and> activeECUs ?w = activeECUs s1 @ [ucast (msg_identifier m)]"
        then obtain q m d where q: "rx_script s1 = q @ (Some m, d) # rx_script ?w"
          "unqualified a q" "qualifies a m" "activeECUs ?w = activeECUs s1 @ [ucast (msg_identifier m)]"
          by blast
        have "rx_script s = (p @ q) @ (Some m, d) # rx_script ?w" "unqualified a (p @ q)"
          using p q by simp_all
        with q(3,4) rc show ?thesis unfolding eq by metis
      qed
    qed
    show ?thesis
    proof (cases r)
      case None
      with u have eq: "probe_wait a st s = ?w" by simp
      from rc None consider "rx_script s = []" "rx_script s1 = []"
        | d where "rx_script s = (None, d) # rx_script s1" by auto
      then have sc: "\<exists>p. rx_script s = p @ rx_script s1 \<and> unqualified a p"
      proof cases
        case 1
        then show ?thesis by (intro exI[of _ "[]"]) simp
      next
        case 2
        then show ?thesis by (intro exI[of _ "[(None, d)]"]) simp
      qed
      from lift[OF eq sc "1.IH"(1)[OF True rcv[symmetric] None]] show ?thesis .
    next
      case (Some m)
      with rc obtain d where d: "rx_script s = (Some m, d) # rx_script s1" by auto
      show ?thesis
      proof (cases "qualifies a m")
        case True
        with u Some have eq: "probe_wait a st s = s1\<lparr>activeECUs := activeECUs s1 @ [ucast (msg_identifier m)]\<rparr>"
          by simp
        have "rx_script s = [] @ (Some m, d) # rx_script (probe_wait a st s) \<and> unqualified a []
              \<and> qualifies a m
              \<and> activeECUs (probe_wait a st s) = activeECUs s @ [ucast (msg_identifier m)]"
          using d True rc by (simp add: eq)
        then show ?thesis by blast
      next
        case False
        with u Some have eq: "probe_wait a st s = ?w" by simp
        from d False have "rx_script s = [(Some m, d)] @ rx_script s1 \<and> unqualified a [(Some m, d)]"
          by simp
        then have sc: "\<exists>p. rx_script s = p @ rx_script s1 \<and> unqualified a p" by blast
        have nq: "\<not> (msg_identifier m = ucast a + 8 \<or> (0x7E8 \<le> msg_identifier m \<and> msg_identifier m \<le> 0x7EF))"
          using False by (simp add: qualifies_def)
        from lift[OF eq sc "1.IH"(2)[OF True rcv[symmetric] Some nq]] show ?thesis .
      qed
    qed
  qed
qed

lemma probe_wait_records:
  "rx_script s = pre @ (Some m, d) # rest \<Longrightarrow> unqualified a pre \<Longrightarrow> qualifies a m \<Longrightarrow>
   clock s + sum_list (map snd pre) - st < 800 \<Longrightarrow>
   probe_wait a st s =
     s\<lparr>clock := clock s + sum_list (map snd pre) + d, rx_script := rest,
       activeECUs := activeECUs s @ [ucast (msg_identifier m)]\<rparr>"
proof (induction pre arbitrary: s)
  case Nil
  let ?s1 = "s\<lparr>clock := clock s + d, rx_script := rest\<rparr>"
  from Nil have run: "millis s - st < 800" by (simp add: millis_def)
  from Nil have rcv: "twai_receive 50 s = (Some m, ?s1)" by (simp add: twai_receive_Cons)
  from probe_wait_unfold[OF run rcv, of a] Nil(3) show ?case by simp
next
  case (Cons e pre)
  obtain r dd where e: "e = (r, dd)" by (cases e)
  let ?s1 = "s\<lparr>clock := clock s + dd, rx_script := pre @ (Some m, d) # rest\<rparr>"
  from Cons.prems(4) have run: "millis s - st < 800" by (simp add: millis_def)
  from Cons.prems(1) e have rcv: "twai_receive 50 s = (r, ?s1)" by (simp add: twai_receive_Cons)
  from Cons.prems(2) e have miss: "case r of None \<Rightarrow> True | Some m' \<Rightarrow> \<not> qualifies a m'"
    by (cases r) simp_all
  from Cons.prems(2) e have rest: "unqualified a pre" by (cases r) simp_all
  from probe_wait_unfold[OF run rcv, of a] miss
  have "probe_wait a st s = probe_wait a st ?s1" by (cases r) simp_all
  also have "\<dots> = ?s1\<lparr>clock := clock ?s1 + sum_list (map snd pre) + d, rx_script := rest,
       activeECUs := activeECUs ?s1 @ [ucast (msg_identifier m)]\<rparr>"
    using Cons.prems(3,4) rest e by (intro Cons.IH) (simp_all add: add.assoc)
  finally show ?case using e by (simp add: add.assoc)
qed

lemma probe_progress_percent:
  assumes "i < NUM_ECUS"
  shows "snd ` set (probe_progress i) \<subseteq> {50, 56, 62, 68}"
proof -
  from assms have "i < 16" by (simp add: NUM_ECUS_16)
  from lt16_cases[OF this] show ?thesis
    by (elim disjE) (simp_all add: probe_progress_def NUM_ECUS_16)
qed

lemma discovery_percent:
  assumes "m \<le> NUM_ECUS"
  shows "snd ` set (concat (map probe_progress [0..<m])) \<subseteq> {50, 56, 62, 68}"
proof
  fix x assume "x \<in> snd ` set (concat (map probe_progress [0..<m]))"
  then obtain i where "i < m" "x \<in> snd ` set (probe_progress i)" by force
  with assms probe_progress_percent[of i] show "x \<in> {50, 56, 62, 68}" by auto
qed

lemma wf_rx_after:
  "wf_rx s0 \<Longrightarrow> wf_rx (after_discovery s0)"
  using after_discovery_effect[of s0] wf_rx_suffix by blast

lemma concat_short:
  assumes "\<forall>j < length ys. length (ys ! j) \<le> 1"
  shows "length (concat ys) \<le> length ys"
proof -
  have "length (concat (map id ys)) \<le> length ys"
  proof (rule length_concat_le)
    fix x assume "x \<in> set ys"
    then obtain j where "j < length ys" "ys ! j = x" by (auto simp: in_set_conv_nth)
    with assms show "length (id x) \<le> 1" by auto
  qed
  then show ?thesis by simp
qed

section \<open>Runs on concrete buses\<close>

subsection \<open>Quiet stretches in closed form\<close>

lemma quiet_0 [simp]: "quiet 0 = []"
  by (simp add: quiet_def)

lemma quiet_Suc: "quiet (Suc n) = (None, 50) # quiet n"
  by (simp add: quiet_def)

lemma quiet_split: "k \<le> n \<Longrightarrow> quiet n = quiet k @ quiet (n - k)"
  by (simp add: quiet_def replicate_add[symmetric])

lemma probe_wait_quiet:
  "rx_script s = quiet k @ rest \<Longrightarrow> clock s + 50 * k = st + 800 \<Longrightarrow>
   probe_wait a st s = s\<lparr>clock := st + 800, rx_script := rest\<rparr>"
proof (induction k arbitrary: s)
  case 0
  then have "probe_wait a st s = s" by (subst probe_wait.simps) (simp add: millis_def)
  with 0 show ?case by simp
next
  case (Suc k)
  let ?t = "s\<lparr>clock := clock s + 50, rx_script := quiet k @ rest\<rparr>"
  from Suc.prems have "millis s - st < 800" by (simp add: millis_def)
  moreover from Suc.prems have "twai_receive 50 s = (None, ?t)"
    by (simp add: twai_receive_def quiet_Suc)
  ultimately have "probe_wait a st s = probe_wait a st ?t"
    by (subst probe_wait.simps) simp
  also have "\<dots> = ?t\<lparr>clock := st + 800, rx_script := rest\<rparr>"
    using Suc.prems by (intro Suc.IH) simp_all
  finally show ?case by simp
qed

lemma listen_quiet:
  "rx_script s = quiet k @ rest \<Longrightarrow> clock s + 50 * k = st + d \<Longrightarrow> st \<le> clock s \<Longrightarrow>
   listen_loop d st fc ids s = s\<lparr>clock := st + d, rx_script := rest\<rparr>"
proof (induction k arbitrary: s)
  case 0
  then have "listen_loop d st fc ids s = s" by (subst listen_loop.simps) (simp add: millis_def)
  with 0 show ?case by simp
next
  case (Suc k)
  let ?t = "s\<lparr>clock := clock s + 50, rx_script := quiet k @ rest\<rparr>"
  from Suc.prems have "millis s - st < d" by (simp add: millis_def)
  moreover from Suc.prems have "twai_receive 50 s = (None, ?t)"
    by (simp add: twai_receive_def quiet_Suc)
  ultimately have "listen_loop d st fc ids s = listen_loop d st fc ids ?t"
    by (subst listen_loop.simps) simp
  also have "\<dots> = ?t\<lparr>clock := st + d, rx_script := rest\<rparr>"
    using Suc.prems by (intro Suc.IH) simp_all
  finally show ?case by simp
qed

lemma dtc_wait_quiet:
  "rx_script s = quiet k @ rest \<Longrightarrow> clock s + 50 * k = st + 1000 \<Longrightarrow>
   dtc_wait e st s = (None, s\<lparr>clock := st + 1000, rx_script := rest\<rparr>)"
proof (induction k arbitrary: s)
  case 0
  then have "dtc_wait e st s = (None, s)" by (subst dtc_wait.simps) (simp add: millis_def)
  with 0 show ?case by simp
next
  case (Suc k)
  let ?t = "s\<lparr>clock := clock s + 50, rx_script := quiet k @ rest\<rparr>"
  from Suc.prems have "millis s - st < 1000" by (simp add: millis_def)
  moreover from Suc.prems have "twai_receive 50 s = (None, ?t)"
    by (simp add: twai_receive_def quiet_Suc)
  ultimately have "dtc_wait e st s = dtc_wait e st ?t"
    by (subst dtc_wait.simps) simp
  also have "\<dots> = (None, ?t\<lparr>clock := st + 1000, rx_script := rest\<rparr>)"
    using Suc.prems by (intro Suc.IH) simp_all
  finally show ?case by simp
qed

lemma detect_traffic:
  "da < 2000 \<Longrightarrow> da + db < 2000 \<Longrightarrow>
   autoDetectCANBaudRate
     \<lparr>detectedCodes = dc, activeECUs = ae, vehicleDetected = vd, clock = c,
      rx_script = (Some ma, da) # (Some mb, db) # (Some mc, dm) # rest, tx_script = ts,
      install_script = [], start_script = [], tx_log = txl, timing_log = tm, progress_log = pl\<rparr> =
   (500000,
     \<lparr>detectedCodes = dc, activeECUs = ae, vehicleDetected = vd, clock = c + da + db + dm,
      rx_script = rest, tx_script = ts,
      install_script = [], start_script = [], tx_log = txl, timing_log = tm @ [TIMING_500KBITS],
      progress_log = pl\<rparr>)"
  by (simp add: eval_detect)

lemma listen_quiet_phase:
  "listenForCANTraffic TRAFFIC_LISTEN_TIMEOUT_MS
     \<lparr>detectedCodes = dc, activeECUs = ae, vehicleDetected = vd, clock = c,
      rx_script = quiet 100 @ rest, tx_script = ts,
      install_script = ins, start_script = sts, tx_log = txl, timing_log = tm, progress_log = pl\<rparr> =
     \<lparr>detectedCodes = dc, activeECUs = ae, vehicleDetected = vd, clock = c + 5000,
      rx_script = rest, tx_script = ts,
      install_script = ins, start_script = sts, tx_log = txl, timing_log = tm, progress_log = pl\<rparr>"
  unfolding listenForCANTraffic_def
  by (subst listen_quiet[where k = 100 and rest = rest])
     (simp_all add: millis_def TRAFFIC_LISTEN_TIMEOUT_MS_def)

lemma probe_answered:
  "qualifies (OBD2_ADDRESSES ! i) m \<Longrightarrow>
   probe_address i
     \<lparr>detectedCodes = dc, activeECUs = ae, vehicleDetected = vd, clock = c,
      rx_script = (Some m, d) # rest, tx_script = [],
      install_script = ins, start_script = sts, tx_log = txl, timing_log = tm, progress_log = pl\<rparr> =
     \<lparr>detectedCodes = dc, activeECUs = ae @ [ucast (msg_identifier m)], vehicleDetected = vd,
      clock = c + d + 50, rx_script = rest, tx_script = [],
      install_script = ins, start_script = sts,
      tx_log = txl @ [(c, supported_pid_query (OBD2_ADDRESSES ! i))], timing_log = tm,
      progress_log = pl @ probe_progress i\<rparr>"
  by (simp add: probe_address_def Let_def twai_transmit_def updateScanProgress_def
      probe_progress_def probe_wait.simps[of _ _ "\<lparr>detectedCodes = _, activeECUs = _, vehicleDetected = _, clock = _,
      rx_script = (Some m, d) # rest, tx_script = _,
      install_script = _, start_script = _, tx_log = _, timing_log = _, progress_log = _\<rparr>"]
      twai_receive_def millis_def delay_def qualifies_def)

lemma probe_quiet:
  assumes "16 \<le> n"
  shows "probe_address i
     \<lparr>detectedCodes = dc, activeECUs = ae, vehicleDetected = vd, clock = c,
      rx_script = quiet n @ rest, tx_script = [],
      install_script = ins, start_script = sts, tx_log = txl, timing_log = tm, progress_log = pl\<rparr> =
     \<lparr>detectedCodes = dc, activeECUs = ae, vehicleDetected = vd,
      clock = c + 850, rx_script = quiet (n - 16) @ rest, tx_script = [],
      install_script = ins, start_script = sts,
      tx_log = txl @ [(c, supported_pid_query (OBD2_ADDRESSES ! i))], timing_log = tm,
      progress_log = pl @ probe_progress i\<rparr>"
proof -
  have w: "probe_wait a c
     \<lparr>detectedCodes = dc, activeECUs = ae, vehicleDetected = vd, clock = c,
      rx_script = quiet n @ rest, tx_script = [],
      install_script = ins, start_script = sts, tx_log = txl', timing_log = tm, progress_log = pl'\<rparr> =
     \<lparr>detectedCodes = dc, activeECUs = ae, vehicleDetected = vd, clock = c + 800,
      rx_script = quiet (n - 16) @ rest, tx_script = [],
      install_script = ins, start_script = sts, tx_log = txl', timing_log = tm, progress_log = pl'\<rparr>"
    for a txl' pl'
    by (subst probe_wait_quiet[where k = 16 and rest = "quiet (n - 16) @ rest"])
       (simp_all add: quiet_split[OF assms])
  show ?thesis
    by (simp add: probe_address_def Let_def twai_transmit_def updateScanProgress_def
        probe_progress_def millis_def delay_def w)
qed

lemma scan_ecu_answered:
  "msg_identifier m = ucast ecu \<Longrightarrow> 2 < data_length_code m \<Longrightarrow>
   scan_ecu ecu
     \<lparr>detectedCodes = dc, activeECUs = ae, vehicleDetected = vd, clock = c,
      rx_script = (Some m, d) # rest, tx_script = [],
      install_script = ins, start_script = sts, tx_log = txl, timing_log = tm, progress_log = pl\<rparr> =
   (case parseAndStoreDTC (data m) (uint (data_length_code m)) ecu dc of
      Inl e \<Rightarrow> Inl e
    | Inr codes \<Rightarrow> Inr
     \<lparr>detectedCodes = codes, activeECUs = ae, vehicleDetected = vd,
      clock = c + d + 100, rx_script = rest, tx_script = [],
      install_script = ins, start_script = sts,
      tx_log = txl @ [(c, stored_dtc_query (if 0x7E8 \<le> ecu \<and> ecu \<le> 0x7EF then ecu - 8 else ecu))],
      timing_log = tm, progress_log = pl\<rparr>)"
  by (simp add: scan_ecu_def Let_def twai_transmit_def
      dtc_wait.simps[of _ _ "\<lparr>detectedCodes = _, activeECUs = _, vehicleDetected = _, clock = _,
      rx_script = (Some m, d) # rest, tx_script = _,
      install_script = _, start_script = _, tx_log = _, timing_log = _, progress_log = _\<rparr>"]
      twai_receive_def millis_def delay_def split: sum.split)

lemma scan_ecu_quiet:
  assumes "20 \<le> n"
  shows "scan_ecu ecu
     \<lparr>detectedCodes = dc, activeECUs = ae, vehicleDetected = vd, clock = c,
      rx_script = quiet n @ rest, tx_script = [],
      install_script = ins, start_script = sts, tx_log = txl, timing_log = tm, progress_log = pl\<rparr> =
   Inr
     \<lparr>detectedCodes = dc, activeECUs = ae, vehicleDetected = vd,
      clock = c + 1100, rx_script = quiet (n - 20) @ rest, tx_script = [],
      install_script = ins, start_script = sts,
      tx_log = txl @ [(c, stored_dtc_query (if 0x7E8 \<le> ecu \<and> ecu \<le> 0x7EF then ecu - 8 else ecu))],
      timing_log = tm, progress_log = pl\<rparr>"
proof -
  have w: "dtc_wait ecu c
     \<lparr>detectedCodes = dc, activeECUs = ae, vehicleDetected = vd, clock = c,
      rx_script = quiet n @ rest, tx_script = [],
      install_script = ins, start_script = sts, tx_log = txl', timing_log = tm, progress_log = pl\<rparr> =
     (None, \<lparr>detectedCodes = dc, activeECUs = ae, vehicleDetected = vd, clock = c + 1000,
      rx_script = quiet (n - 20) @ rest, tx_script = [],
      install_script = ins, start_script = sts, tx_log = txl', timing_log = tm, progress_log = pl\<rparr>)"
    for txl'
    by (subst dtc_wait_quiet[where k = 20 and rest = "quiet (n - 20) @ rest"])
       (simp_all add: quiet_split[OF assms])
  show ?thesis
    by (simp add: scan_ecu_def Let_def twai_transmit_def millis_def delay_def w)
qed

subsection \<open>Single probes and waits\<close>

lemmas eval_bus = kiosk_with_def pid_answer_def dtc_first_def dtc_next_def dtc_short_def frame_def
  qualifies_def OBD2_ADDRESSES_def

lemma answer_recorded:
  "probe_address 0 (kiosk_with [(Some pid_answer, 10)]) =
     (kiosk_with [])\<lparr>activeECUs := [0x7E8], clock := 60,
        tx_log := [(0, supported_pid_query 0x7E0)], progress_log := probe_progress 0\<rparr>"
  by (simp add: probe_answered eval_bus)

lemma answer_recorded_late:
  "probe_address 1 (kiosk_with [(Some pid_answer, 10)]) =
     (kiosk_with [])\<lparr>activeECUs := [0x7E8], clock := 60,
        tx_log := [(0, supported_pid_query 0x7E1)], progress_log := probe_progress 1\<rparr>"
  by (simp add: probe_answered eval_bus)

lemma stalled_probe_0:
  "fold probe_address [0..<Suc 0] stalled_probe =
     (kiosk_with [(None, 16000)])\<lparr>activeECUs := [0x7E8], clock := 60,
        tx_log := [(0, supported_pid_query 0x7E0)], progress_log := probe_progress 0\<rparr>"
  by (simp add: stalled_probe_def probe_answered eval_bus)

lemma stalled_probe_1:
  "fold probe_address [0..<Suc (Suc 0)] stalled_probe =
     (kiosk_with [])\<lparr>activeECUs := [0x7E8], clock := 16110,
        tx_log := [(0, supported_pid_query 0x7E0), (60, supported_pid_query 0x7E1)],
        progress_log := probe_progress 0\<rparr>"
proof -
  have "fold probe_address [0..<Suc (Suc 0)] stalled_probe =
      probe_address (Suc 0) (fold probe_address [0..<Suc 0] stalled_probe)" by simp
  also have "\<dots> = (kiosk_with [])\<lparr>activeECUs := [0x7E8], clock := 16110,
        tx_log := [(0, supported_pid_query 0x7E0), (60, supported_pid_query 0x7E1)],
        progress_log := probe_progress 0\<rparr>"
    unfolding stalled_probe_0
    by (simp add: probe_address_def Let_def twai_transmit_def twai_receive_def millis_def
        delay_def probe_wait.simps kiosk_with_def OBD2_ADDRESSES_def)
  finally show ?thesis .
qed

subsection \<open>Whole scans\<close>

lemma probe_progress_values:
  "probe_progress 0 = [(''Checking ECU 1/16'', 50)]"
  "probe_progress 4 = [(''Checking ECU 5/16'', 56)]"
  "probe_progress 8 = [(''Checking ECU 9/16'', 62)]"
  "probe_progress 12 = [(''Checking ECU 13/16'', 68)]"
  "i mod 4 \<noteq> 0 \<Longrightarrow> probe_progress i = []"
  by (simp_all add: probe_progress_def NUM_ECUS_16 String_DEC.simps digit_char_def)

lemma probe_progress_unary:
  "probe_progress (Suc (Suc (Suc (Suc 0)))) = [(''Checking ECU 5/16'', 56)]"
  "probe_progress (Suc (Suc (Suc (Suc (Suc (Suc (Suc (Suc 0)))))))) = [(''Checking ECU 9/16'', 62)]"
  "probe_progress (Suc (Suc (Suc (Suc (Suc (Suc (Suc (Suc (Suc (Suc (Suc (Suc 0))))))))))))
     = [(''Checking ECU 13/16'', 68)]"
  using probe_progress_values(2-4) by (simp_all add: eval_nat_numeral)

lemma parse_dtc_frames:
  "parseAndStoreDTC (data dtc_first) (uint (data_length_code dtc_first)) e codes =
     Inr (codes @ [make_fault 0x01 0x23 e, make_fault 0x41 0x00 e, make_fault 0x81 0x00 e])"
  "parseAndStoreDTC (data dtc_next) (uint (data_length_code dtc_next)) e codes =
     Inr (codes @ [make_fault 0xC1 0x00 e, make_fault 0x02 0x34 e, make_fault 0x03 0x45 e])"
  by (simp_all add: parseAndStoreDTC_def parseAndStoreDTC_loop.simps dtc_first_def dtc_next_def
      frame_def Let_def)

lemma after_traffic:
  "detected_rate (kiosk_with (traffic @ rest)) = 500000"
  "after_detection (kiosk_with (traffic @ rest)) =
     (kiosk_with rest)\<lparr>clock := 15, timing_log := [TIMING_500KBITS],
        progress_log := [(''Detecting vehicle...'', 0)]\<rparr>"
  by (simp_all add: detected_rate_def after_detection_def scan_reset_def updateScanProgress_def
      kiosk_with_def traffic_def detect_traffic)

lemma after_quiet_listening:
  "after_listening (kiosk_with (traffic @ quiet 100 @ rest)) =
     (kiosk_with rest)\<lparr>vehicleDetected := True, clock := 5015, timing_log := [TIMING_500KBITS],
        progress_log := [(''Detecting vehicle...'', 0), (''Vehicle found! Analyzing...'', 25),
                         (''Reading vehicle data...'', 50)]\<rparr>"
  unfolding after_listening_def after_traffic
  by (simp add: updateScanProgress_def kiosk_with_def listen_quiet_phase)

lemma in_time:
  "\<not> deadline_passed (kiosk_with (traffic @ quiet 100 @ rest))
        (after_detection (kiosk_with (traffic @ quiet 100 @ rest)))"
  "\<not> deadline_passed (kiosk_with (traffic @ quiet 100 @ rest))
        (after_listening (kiosk_with (traffic @ quiet 100 @ rest)))"
  unfolding after_quiet_listening after_traffic
  by (simp_all add: deadline_passed_def millis_def kiosk_with_def TOTAL_SCAN_TIMEOUT_MS_def)

lemmas eval_probe = probeOBD2ECUsWithTimeout_def probe_loop.simps NUM_ECUS_16 millis_def
  ECU_PROBE_TIMEOUT_MS_def probe_answered probe_quiet probe_progress_values probe_progress_unary eval_bus
  updateScanProgress_def

lemma one_ecu_discovery:
  "after_discovery one_ecu =
     (kiosk_with [(Some dtc_first, 10)])\<lparr>activeECUs := [0x7E8], vehicleDetected := True,
        clock := 17825, timing_log := [TIMING_500KBITS],
        tx_log := [(5015, supported_pid_query 0x7E0), (5075, supported_pid_query 0x7E1),
                   (5925, supported_pid_query 0x7E2), (6775, supported_pid_query 0x7E3),
                   (7625, supported_pid_query 0x7E4), (8475, supported_pid_query 0x7E5),
                   (9325, supported_pid_query 0x7E6), (10175, supported_pid_query 0x7E7),
                   (11025, supported_pid_query 0x7E8), (11875, supported_pid_query 0x7E9),
                   (12725, supported_pid_query 0x7EA), (13575, supported_pid_query 0x7EB),
                   (14425, supported_pid_query 0x7EC), (15275, supported_pid_query 0x7ED),
                   (16125, supported_pid_query 0x7EE), (16975, supported_pid_query 0x7EF)],
        progress_log := [(''Detecting vehicle...'', 0), (''Vehicle found! Analyzing...'', 25),
                         (''Reading vehicle data...'', 50), (''Checking ECU 1/16'', 50),
                         (''Checking ECU 5/16'', 56), (''Checking ECU 9/16'', 62),
                         (''Checking ECU 13/16'', 68), (''Checking systems...'', 75)]\<rparr>"
  unfolding after_discovery_def one_ecu_def after_quiet_listening
  by (simp add: eval_probe)

lemma codes_of_dtc_frames:
  "code (make_fault 0x01 0x23 e) = ''P0123''" "code (make_fault 0x41 0x00 e) = ''C0100''"
  "code (make_fault 0x81 0x00 e) = ''B0100''" "code (make_fault 0xC1 0x00 e) = ''U0100''"
  "code (make_fault 0x02 0x34 e) = ''P0234''" "code (make_fault 0x03 0x45 e) = ''P0345''"
  "ecuId (make_fault b1 b2 e) = e"
  by (simp_all add: make_fault_def dtc_string_hex4 hex4_def upper_hex_digit_def dtc_category_def
      dtc_codeNumber_def)

lemma frames_wf:
  "wf_frame pid_answer" "wf_frame dtc_first" "wf_frame dtc_next" "wf_frame dtc_short"
  "wf_frame (frame i 8 [0, 0, 0, 0, 0, 0, 0, 0])"
  by (simp_all add: wf_frame_def eval_bus)

lemma wf_rx_kiosk_with:
  "wf_rx (kiosk_with rx) = (\<forall>e\<in>set rx. \<forall>m. fst e = Some m \<longrightarrow> wf_frame m)"
  by (simp add: wf_rx_def kiosk_with_def)

lemma runs_wf: "wf_rx one_ecu" "wf_rx two_answers" "wf_rx late_frame"
  by (auto simp: wf_rx_kiosk_with one_ecu_def two_answers_def late_frame_def traffic_def
      quiet_def frames_wf)

lemma dtc_frames_answer:
  "msg_identifier dtc_first = 0x7E8" "msg_identifier dtc_next = 0x7E8"
  "2 < data_length_code dtc_first" "2 < data_length_code dtc_next"
  by (simp_all add: eval_bus)

lemmas scan_ecu_quiet_end = scan_ecu_quiet[where rest = "[]", simplified]

lemmas eval_dtc = scanAllDTCs_def scan_ecu_answered scan_ecu_quiet scan_ecu_quiet_end
  parse_dtc_frames
  dtc_frames_answer updateScanProgress_def kiosk_with_def

lemma one_ecu_scan:
  "performDiagnosticScan one_ecu = Inr
     ((kiosk_with [])\<lparr>
        detectedCodes := [make_fault 0x01 0x23 0x7E8, make_fault 0x41 0x00 0x7E8,
                          make_fault 0x81 0x00 0x7E8],
        activeECUs := [0x7E8], vehicleDetected := True,
        clock := 17935, timing_log := [TIMING_500KBITS],
        tx_log := [(5015, supported_pid_query 0x7E0), (5075, supported_pid_query 0x7E1),
                   (5925, supported_pid_query 0x7E2), (6775, supported_pid_query 0x7E3),
                   (7625, supported_pid_query 0x7E4), (8475, supported_pid_query 0x7E5),
                   (9325, supported_pid_query 0x7E6), (10175, supported_pid_query 0x7E7),
                   (11025, supported_pid_query 0x7E8), (11875, supported_pid_query 0x7E9),
                   (12725, supported_pid_query 0x7EA), (13575, supported_pid_query 0x7EB),
                   (14425, supported_pid_query 0x7EC), (15275, supported_pid_query 0x7ED),
                   (16125, supported_pid_query 0x7EE), (16975, supported_pid_query 0x7EF),
                   (17825, stored_dtc_query 0x7E0)],
        progress_log := [(''Detecting vehicle...'', 0), (''Vehicle found! Analyzing...'', 25),
                         (''Reading vehicle data...'', 50), (''Checking ECU 1/16'', 50),
                         (''Checking ECU 5/16'', 56), (''Checking ECU 9/16'', 62),
                         (''Checking ECU 13/16'', 68), (''Checking systems...'', 75),
                         (''Scan complete!'', 100)]\<rparr>)"
proof -
  have d: "detected_rate one_ecu \<noteq> 0" by (simp add: one_ecu_def after_traffic)
  note t = in_time[of "(Some pid_answer, 10) # quiet 240 @ [(Some dtc_first, 10)]",
      folded one_ecu_def]
  show ?thesis
    unfolding scan_cases one_ecu_discovery using d t
    by (simp add: eval_dtc)
qed

lemma two_answers_discovery:
  "after_discovery two_answers =
     (kiosk_with [(Some dtc_first, 10), (Some dtc_next, 10)])\<lparr>
        activeECUs := [0x7E8, 0x7E8], vehicleDetected := True,
        clock := 17035, timing_log := [TIMING_500KBITS],
        tx_log := [(5015, supported_pid_query 0x7E0), (5075, supported_pid_query 0x7E1),
                   (5135, supported_pid_query 0x7E2), (5985, supported_pid_query 0x7E3),
                   (6835, supported_pid_query 0x7E4), (7685, supported_pid_query 0x7E5),
                   (8535, supported_pid_query 0x7E6), (9385, supported_pid_query 0x7E7),
                   (10235, supported_pid_query 0x7E8), (11085, supported_pid_query 0x7E9),
                   (11935, supported_pid_query 0x7EA), (12785, supported_pid_query 0x7EB),
                   (13635, supported_pid_query 0x7EC), (14485, supported_pid_query 0x7ED),
                   (15335, supported_pid_query 0x7EE), (16185, supported_pid_query 0x7EF)],
        progress_log := [(''Detecting vehicle...'', 0), (''Vehicle found! Analyzing...'', 25),
                         (''Reading vehicle data...'', 50), (''Checking ECU 1/16'', 50),
                         (''Checking ECU 5/16'', 56), (''Checking ECU 9/16'', 62),
                         (''Checking ECU 13/16'', 68), (''Checking systems...'', 75)]\<rparr>"
  unfolding after_discovery_def two_answers_def after_quiet_listening
  by (simp add: eval_probe)

lemma two_answers_scan:
  "performDiagnosticScan two_answers = Inr
     ((kiosk_with [])\<lparr>
        detectedCodes := [make_fault 0x01 0x23 0x7E8, make_fault 0x41 0x00 0x7E8,
                          make_fault 0x81 0x00 0x7E8, make_fault 0xC1 0x00 0x7E8,
                          make_fault 0x02 0x34 0x7E8, make_fault 0x03 0x45 0x7E8],
        activeECUs := [0x7E8, 0x7E8], vehicleDetected := True,
        clock := 17255, timing_log := [TIMING_500KBITS],
        tx_log := [(5015, supported_pid_query 0x7E0), (5075, supported_pid_query 0x7E1),
                   (5135, supported_pid_query 0x7E2), (5985, supported_pid_query 0x7E3),
                   (6835, supported_pid_query 0x7E4), (7685, supported_pid_query 0x7E5),
                   (8535, supported_pid_query 0x7E6), (9385, supported_pid_query 0x7E7),
                   (10235, supported_pid_query 0x7E8), (11085, supported_pid_query 0x7E9),
                   (11935, supported_pid_query 0x7EA), (12785, supported_pid_query 0x7EB),
                   (13635, supported_pid_query 0x7EC), (14485, supported_pid_query 0x7ED),
                   (15335, supported_pid_query 0x7EE), (16185, supported_pid_query 0x7EF),
                   (17035, stored_dtc_query 0x7E0), (17145, stored_dtc_query 0x7E0)],
        progress_log := [(''Detecting vehicle...'', 0), (''Vehicle found! Analyzing...'', 25),
                         (''Reading vehicle data...'', 50), (''Checking ECU 1/16'', 50),
                         (''Checking ECU 5/16'', 56), (''Checking ECU 9/16'', 62),
                         (''Checking ECU 13/16'', 68), (''Checking systems...'', 75),
                         (''Scan complete!'', 100)]\<rparr>)"
proof -
  have d: "detected_rate two_answers \<noteq> 0" by (simp add: two_answers_def after_traffic)
  note t = in_time[of "(Some pid_answer, 10) # (Some pid_answer, 10)
                               # quiet 224 @ [(Some dtc_first, 10), (Some dtc_next, 10)]",
      folded two_answers_def]
  show ?thesis
    unfolding scan_cases two_answers_discovery using d t
    by (simp add: eval_dtc)
qed




lemma slow_listening_state:
  "after_listening slow_listening =
     (kiosk_with [])\<lparr>vehicleDetected := True, clock := 46015, timing_log := [TIMING_500KBITS],
        progress_log := [(''Detecting vehicle...'', 0), (''Vehicle found! Analyzing...'', 25),
                         (''Reading vehicle data...'', 50)]\<rparr>"
  unfolding after_listening_def slow_listening_def after_traffic
  by (simp add: updateScanProgress_def kiosk_with_def listenForCANTraffic_def listen_loop.simps
      twai_receive_def millis_def TRAFFIC_LISTEN_TIMEOUT_MS_def)

lemma quiet_butlast: "butlast (quiet (Suc n)) = quiet n"
proof -
  have "quiet (Suc n) = quiet n @ [(None, 50)]"
    unfolding quiet_def by (simp add: replicate_append_same)
  then show ?thesis by simp
qed

lemma quiet_sum: "sum_list (map snd (quiet n)) = 50 * n"
  by (simp add: quiet_def sum_list_replicate)

lemma quiet_no_answer: "no_answer_in ecu (quiet n)"
  by (simp add: no_answer_in_def quiet_def)

lemma discovery_updates:
  "concat (map probe_progress [0..<NUM_ECUS]) =
     [(''Checking ECU 1/16'', 50), (''Checking ECU 5/16'', 56), (''Checking ECU 9/16'', 62),
      (''Checking ECU 13/16'', 68)]"
  by (simp add: NUM_ECUS_16 upt_rec probe_progress_values probe_progress_unary)

section \<open>Claims about the decoder\<close>

text \<open>
  Claim C1. For a response whose length code \<open>len\<close> exceeds 2 (and lies within the frame's
  bytes), \<^verbatim>\<open>parseAndStoreDTC\<close> appends to \<^verbatim>\<open>detectedCodes\<close> exactly the codes of the byte
  pairs at offsets \<open>(2, 3)\<close>, \<open>(4, 5)\<close>, \<open>\<dots>\<close> below \<open>len\<close>, in order. A pair of two zero
  bytes gives no code. Any other pair gives one record whose string is the category letter
  selected by the top two bits of the first byte (\<open>00\<close> P, \<open>01\<close> C, \<open>10\<close> B, \<open>11\<close> U) followed by
  upper-case hexadecimal digits that read back as the 14-bit number
  \<^verbatim>\<open>((b1 & 0x3F) << 8) | b2\<close>; the record carries the ECU's identifier and is not pending.
\<close>

theorem parseAndStoreDTC_decodes:
  assumes "2 < len" and "len \<le> int (length bytes)"
  shows "parseAndStoreDTC bytes len ecu codes =
           Inr (codes @ concat (map (\<lambda>k. if bytes ! (2 + 2 * k) = 0 \<and> bytes ! (2 + 2 * k + 1) = 0 then []
                                          else [make_fault (bytes ! (2 + 2 * k)) (bytes ! (2 + 2 * k + 1)) ecu])
                                    [0..<nat ((len - 2) div 2)]))
         \<and> (\<forall>byte1 byte2.
               hd (code (make_fault byte1 byte2 ecu)) = ''PCBU'' ! unat (drop_bit 6 byte1)
             \<and> length (tl (code (make_fault byte1 byte2 ecu))) = 4
             \<and> set (tl (code (make_fault byte1 byte2 ecu))) \<subseteq> set ''0123456789ABCDEF''
             \<and> hex_value (tl (code (make_fault byte1 byte2 ecu))) = unat (dtc_codeNumber byte1 byte2)
             \<and> unat (dtc_codeNumber byte1 byte2) = unat (byte1 AND 0x3F) * 2 ^ 8 + unat byte2
             \<and> unat (dtc_codeNumber byte1 byte2) < 2 ^ 14
             \<and> ecuId (make_fault byte1 byte2 ecu) = ecu
             \<and> \<not> isPending (make_fault byte1 byte2 ecu))"
proof -
  have "parseAndStoreDTC bytes len ecu codes =
           Inr (codes @ concat (map (\<lambda>k. if bytes ! (2 + 2 * k) = 0 \<and> bytes ! (2 + 2 * k + 1) = 0 then []
                                          else [make_fault (bytes ! (2 + 2 * k)) (bytes ! (2 + 2 * k + 1)) ecu])
                                    [0..<nat ((len - 2) div 2)]))"
    unfolding parseAndStoreDTC_def using parse_loop_pairs[of 2 len bytes ecu codes] assms
    by (simp cong: if_cong)
  moreover have "\<forall>byte1 byte2.
               hd (code (make_fault byte1 byte2 ecu)) = ''PCBU'' ! unat (drop_bit 6 byte1)
             \<and> length (tl (code (make_fault byte1 byte2 ecu))) = 4
             \<and> set (tl (code (make_fault byte1 byte2 ecu))) \<subseteq> set ''0123456789ABCDEF''
             \<and> hex_value (tl (code (make_fault byte1 byte2 ecu))) = unat (dtc_codeNumber byte1 byte2)
             \<and> unat (dtc_codeNumber byte1 byte2) = unat (byte1 AND 0x3F) * 2 ^ 8 + unat byte2
             \<and> unat (dtc_codeNumber byte1 byte2) < 2 ^ 14
             \<and> ecuId (make_fault byte1 byte2 ecu) = ecu
             \<and> \<not> isPending (make_fault byte1 byte2 ecu)"
  proof (intro allI)
    fix byte1 byte2
    have b: "unat (dtc_codeNumber byte1 byte2) < 65536"
      using codeNumber_bound[of byte1 byte2] by simp
    have c: "code (make_fault byte1 byte2 ecu) =
               dtc_category byte1 # hex4 (unat (dtc_codeNumber byte1 byte2))"
      by (simp add: make_fault_def dtc_string_hex4)
    have l: "length (hex4 (unat (dtc_codeNumber byte1 byte2))) = 4" by (simp add: hex4_def)
    show "hd (code (make_fault byte1 byte2 ecu)) = ''PCBU'' ! unat (drop_bit 6 byte1)
             \<and> length (tl (code (make_fault byte1 byte2 ecu))) = 4
             \<and> set (tl (code (make_fault byte1 byte2 ecu))) \<subseteq> set ''0123456789ABCDEF''
             \<and> hex_value (tl (code (make_fault byte1 byte2 ecu))) = unat (dtc_codeNumber byte1 byte2)
             \<and> unat (dtc_codeNumber byte1 byte2) = unat (byte1 AND 0x3F) * 2 ^ 8 + unat byte2
             \<and> unat (dtc_codeNumber byte1 byte2) < 2 ^ 14
             \<and> ecuId (make_fault byte1 byte2 ecu) = ecu
             \<and> \<not> isPending (make_fault byte1 byte2 ecu)"
      unfolding c list.sel
      using hex4_digits[OF b] hex_value_hex4[OF b] codeNumber_unat[of byte1 byte2]
        codeNumber_bound[of byte1 byte2] category_top_bits[of byte1] l
      by (simp add: make_fault_def)
  qed
  ultimately show ?thesis by (rule conjI)
qed

text \<open>
  The specification's examples: the payload \<open>[05, 43, 01, 23, 00, 00, 00, 00]\<close> gives the one
  code \<open>P0123\<close> (the zero pairs give none), and the pair \<open>(43, 10)\<close> gives \<open>C0310\<close>.
\<close>

theorem parseAndStoreDTC_decodes_witness:
  "(2::int) < 8 \<and> (8::int) \<le> int (length [0x05, 0x43, 0x01, 0x23, 0x00, 0x00, 0x00, 0x00 :: u8])
   \<and> parseAndStoreDTC [0x05, 0x43, 0x01, 0x23, 0x00, 0x00, 0x00, 0x00] 8 0x7E8 [] =
       Inr [\<lparr>code = ''P0123'', system = ''ECU 0x7e8'', isPending = False, ecuId = 0x7E8\<rparr>]
   \<and> hd ''P0123'' = ''PCBU'' ! unat (drop_bit 6 (0x01 :: u8))
   \<and> hex_value ''0123'' = 0x123
   \<and> code (make_fault 0x43 0x10 0x7E8) = ''C0310''"
  using parseAndStoreDTC_decodes[of 8 "[0x05, 0x43, 0x01, 0x23, 0x00, 0x00, 0x00, 0x00]" "0x7E8" "[]"]
  by (simp add: make_fault_def eval_P0123 eval_C0310 String_HEX.simps digit_char_def
      upt_conv_Cons hex_value_def hex_digit_value_def)

text \<open>
  Claim C8, as amended. The padding loop inserts a zero after the first character until the
  string has five characters, and on the strings the decoder builds this is the conventional
  padding: for every byte pair the string is the category letter followed by the number's four
  upper-case hexadecimal digits, padded with zeros on the left.
\<close>

theorem dtc_padding_is_conventional:
  "dtc_string byte1 byte2 = conventional_dtc byte1 byte2
   \<and> (length s < 5 \<longrightarrow> pad_dtc s = pad_dtc (take 1 s @ ''0'' @ drop 1 s))
   \<and> (5 \<le> length s \<longrightarrow> pad_dtc s = s)"
  by (simp add: conventional_dtc_def dtc_string_hex4 pad_dtc.simps[of s])

theorem dtc_padding_is_conventional_witness:
  "dtc_string 0x01 0x23 = conventional_dtc 0x01 0x23
   \<and> length ''P123'' < 5 \<and> pad_dtc ''P123'' = pad_dtc ''P0123''
   \<and> 5 \<le> length ''P0123'' \<and> pad_dtc ''P0123'' = ''P0123''"
  using dtc_padding_is_conventional[of "0x01" "0x23" "''P123''"]
    dtc_padding_is_conventional[of "0x01" "0x23" "''P0123''"]
  by simp

text \<open>
  The claim as first stated, that some byte pair is rendered differently from the
  conventional padding, does not hold: no byte pair is.
\<close>

theorem dtc_padding_differs_counterexample:
  "\<not> (\<exists>byte1 byte2. dtc_string byte1 byte2 \<noteq> conventional_dtc byte1 byte2)"
  by (simp add: conventional_dtc_def dtc_string_hex4)



section \<open>Claims about baud-rate detection\<close>

text \<open>
  Claim C2. \<^verbatim>\<open>autoDetectCANBaudRate\<close> tries 500000, 250000, 125000 and 1000000 in this
  order and returns the first candidate whose turn detects activity, or 0 when none does; the
  timing configurations handed to the driver are a prefix of that order, ending with the
  returned candidate. Reconfiguring a candidate succeeds exactly when both installing and
  starting the driver succeed. A candidate whose reconfiguration fails is given up without
  listening (no receive call, no time spent) and the next is tried. A candidate that was
  reconfigured listens. Whenever the receive calls deliver a third frame by a call that
  begins inside the 2-second window, the window returns with a detection right after that
  call, leaving the rest of the script unread and the clock advanced by the time of the calls
  made; and a window returns with a detection only in this way. A window that ends without a
  detection has received fewer than three frames, the clock has advanced by the time of the
  calls made (100 ms for each call after the script has run out), and at least 2 seconds have
  passed. When fewer than three frames are to come at all, the result is 0.
\<close>

theorem autoDetect_priority_order:
  "autoDetectCANBaudRate s =
     (let (d1, s1) = try_baud 500000 s in if d1 then (500000, s1) else
      let (d2, s2) = try_baud 250000 s1 in if d2 then (250000, s2) else
      let (d3, s3) = try_baud 125000 s2 in if d3 then (125000, s3) else
      let (d4, s4) = try_baud 1000000 s3 in if d4 then (1000000, s4) else (0, s4))
   \<and> (autoDetectCANBaudRate s = (r, s') \<longrightarrow>
        (\<exists>m. 1 \<le> m \<and> m \<le> 4
           \<and> timing_log s' = timing_log s @
                 take m [TIMING_500KBITS, TIMING_250KBITS, TIMING_125KBITS, TIMING_1MBITS]
           \<and> (if r = 0 then m = 4 else r = baudRates ! (m - 1))))
   \<and> (b \<in> set baudRates \<longrightarrow>
        fst (reinitializeCAN b u) =
          ((install_script u = [] \<or> hd (install_script u))
           \<and> (start_script u = [] \<or> hd (start_script u))))
   \<and> (reinitializeCAN b u = (False, u1) \<longrightarrow>
        try_baud b u = (False, u1) \<and> rx_script u1 = rx_script u \<and> clock u1 = clock u)
   \<and> (reinitializeCAN b u = (True, u1) \<longrightarrow>
        try_baud b u = autoDetect_window (millis u1) 0 u1
        \<and> rx_script u1 = rx_script u \<and> clock u1 = clock u)
   \<and> (rx_script t = pre @ rest \<and> length (filter is_frame pre) = 3 \<and> is_frame (last pre)
        \<and> sum_list (map snd (butlast pre)) < BAUD_DETECT_TIMEOUT_MS \<longrightarrow>
        autoDetect_window (millis t) 0 t =
          (True, t\<lparr>clock := clock t + sum_list (map snd pre), rx_script := rest\<rparr>))
   \<and> (autoDetect_window (millis t) 0 t = (True, t') \<longrightarrow>
        (\<exists>pre. rx_script t = pre @ rx_script t' \<and> length (filter is_frame pre) = 3
           \<and> is_frame (last pre)
           \<and> sum_list (map snd (butlast pre)) < BAUD_DETECT_TIMEOUT_MS
           \<and> t' = t\<lparr>clock := clock t + sum_list (map snd pre), rx_script := rx_script t'\<rparr>))
   \<and> (autoDetect_window (millis t) 0 t = (False, t') \<longrightarrow>
        (\<exists>pre k. rx_script t = pre @ rx_script t' \<and> length (filter is_frame pre) < 3
           \<and> (0 < k \<longrightarrow> rx_script t' = [])
           \<and> t' = t\<lparr>clock := clock t + sum_list (map snd pre) + 100 * k,
                     rx_script := rx_script t'\<rparr>
           \<and> BAUD_DETECT_TIMEOUT_MS \<le> millis t' - millis t))
   \<and> (length (filter is_frame (rx_script s)) < 3 \<longrightarrow> fst (autoDetectCANBaudRate s) = 0)"
proof (intro conjI impI)
  show "autoDetectCANBaudRate s =
     (let (d1, s1) = try_baud 500000 s in if d1 then (500000, s1) else
      let (d2, s2) = try_baud 250000 s1 in if d2 then (250000, s2) else
      let (d3, s3) = try_baud 125000 s2 in if d3 then (125000, s3) else
      let (d4, s4) = try_baud 1000000 s3 in if d4 then (1000000, s4) else (0, s4))"
    by (rule autoDetect_cascade)
next
  assume "autoDetectCANBaudRate s = (r, s')"
  then show "\<exists>m. 1 \<le> m \<and> m \<le> 4
           \<and> timing_log s' = timing_log s @
                 take m [TIMING_500KBITS, TIMING_250KBITS, TIMING_125KBITS, TIMING_1MBITS]
           \<and> (if r = 0 then m = 4 else r = baudRates ! (m - 1))"
    by (rule autoDetect_timing_log)
next
  assume b: "b \<in> set baudRates"
  obtain ok v where r: "reinitializeCAN b u = (ok, v)" by (cases "reinitializeCAN b u")
  from reinit_cases(1)[OF b r] r
  show "fst (reinitializeCAN b u) =
          ((install_script u = [] \<or> hd (install_script u))
           \<and> (start_script u = [] \<or> hd (start_script u)))" by simp
next
  assume a: "reinitializeCAN b u = (False, u1)"
  then show "try_baud b u = (False, u1)" by (simp add: try_baud_def)
  from reinit_effect[OF a] show "rx_script u1 = rx_script u" "clock u1 = clock u" by simp_all
next
  assume a: "reinitializeCAN b u = (True, u1)"
  then show "try_baud b u = autoDetect_window (millis u1) 0 u1" by (simp add: try_baud_def)
  from reinit_effect[OF a] show "rx_script u1 = rx_script u" "clock u1 = clock u" by simp_all
next
  assume a: "rx_script t = pre @ rest \<and> length (filter is_frame pre) = 3 \<and> is_frame (last pre)
        \<and> sum_list (map snd (butlast pre)) < BAUD_DETECT_TIMEOUT_MS"
  then have ne: "pre \<noteq> []" by auto
  from a ne show "autoDetect_window (millis t) 0 t =
          (True, t\<lparr>clock := clock t + sum_list (map snd pre), rx_script := rest\<rparr>)"
    by (intro window_detects) (simp_all add: millis_def)
next
  assume "autoDetect_window (millis t) 0 t = (True, t')"
  from window_True[OF this]
  obtain pre where pre: "rx_script t = pre @ rx_script t'" "pre \<noteq> []" "is_frame (last pre)"
    "int (length (filter is_frame pre)) = 3 - 0"
    "clock t + sum_list (map snd (butlast pre)) - millis t < BAUD_DETECT_TIMEOUT_MS"
    "t' = t\<lparr>clock := clock t + sum_list (map snd pre), rx_script := rx_script t'\<rparr>"
    by auto
  from pre(1,3,4,5) have "rx_script t = pre @ rx_script t' \<and> length (filter is_frame pre) = 3
           \<and> is_frame (last pre)
           \<and> sum_list (map snd (butlast pre)) < BAUD_DETECT_TIMEOUT_MS"
    by (simp add: millis_def)
  with pre(6) show "\<exists>pre. rx_script t = pre @ rx_script t' \<and> length (filter is_frame pre) = 3
           \<and> is_frame (last pre)
           \<and> sum_list (map snd (butlast pre)) < BAUD_DETECT_TIMEOUT_MS
           \<and> t' = t\<lparr>clock := clock t + sum_list (map snd pre), rx_script := rx_script t'\<rparr>"
    by blast
next
  assume a: "autoDetect_window (millis t) 0 t = (False, t')"
  from window_expires[OF a]
  obtain pre k where pk: "rx_script t = pre @ rx_script t'"
    "0 + int (length (filter is_frame pre)) < 3" "0 < k \<longrightarrow> rx_script t' = []"
    "t' = t\<lparr>clock := clock t + sum_list (map snd pre) + 100 * k, rx_script := rx_script t'\<rparr>"
    "BAUD_DETECT_TIMEOUT_MS \<le> millis t' - millis t"
    by auto
  from pk(2) have "length (filter is_frame pre) < 3" by simp
  with pk(1,3,4,5)
  show "\<exists>pre k. rx_script t = pre @ rx_script t' \<and> length (filter is_frame pre) < 3
           \<and> (0 < k \<longrightarrow> rx_script t' = [])
           \<and> t' = t\<lparr>clock := clock t + sum_list (map snd pre) + 100 * k,
                     rx_script := rx_script t'\<rparr>
           \<and> BAUD_DETECT_TIMEOUT_MS \<le> millis t' - millis t"
    by blast
next
  assume "length (filter is_frame (rx_script s)) < 3"
  then show "fst (autoDetectCANBaudRate s) = 0" by (rule quiet_bus_no_vehicle)
qed

text \<open>
  A start-up with an installation failure at 500000 and a start failure at 250000: both
  candidates are given up without listening, 125000 is reconfigured and returned at 160 ms,
  with the third frame, the fifth frame being left unread. With two frames in all the result
  is 0.
\<close>

theorem autoDetect_priority_order_witness:
  "start_script c2_input = [False]
   \<and> 500000 \<in> set baudRates \<and> \<not> fst (reinitializeCAN 500000 c2_input)
   \<and> try_baud 500000 c2_input =
       (False, c2_input\<lparr>install_script := [], timing_log := [TIMING_500KBITS]\<rparr>)
   \<and> 250000 \<in> set baudRates
   \<and> \<not> fst (reinitializeCAN 250000 (c2_input\<lparr>install_script := [], timing_log := [TIMING_500KBITS]\<rparr>))
   \<and> try_baud 250000 (c2_input\<lparr>install_script := [], timing_log := [TIMING_500KBITS]\<rparr>) =
       (False, c2_input\<lparr>install_script := [], start_script := [],
                   timing_log := [TIMING_500KBITS, TIMING_250KBITS]\<rparr>)
   \<and> try_baud 125000 (c2_input\<lparr>install_script := [], start_script := [],
                             timing_log := [TIMING_500KBITS, TIMING_250KBITS]\<rparr>) =
       (True, c2_input\<lparr>install_script := [], start_script := [],
                  timing_log := [TIMING_500KBITS, TIMING_250KBITS, TIMING_125KBITS],
                  clock := 160, rx_script := [(Some (frame 0x102 8 [0, 0, 0, 0, 0, 0, 0, 0]), 40)]\<rparr>)
   \<and> autoDetectCANBaudRate c2_input =
       (125000, c2_input\<lparr>install_script := [], start_script := [],
                  timing_log := [TIMING_500KBITS, TIMING_250KBITS, TIMING_125KBITS],
                  clock := 160, rx_script := [(Some (frame 0x102 8 [0, 0, 0, 0, 0, 0, 0, 0]), 40)]\<rparr>)
   \<and> length (filter is_frame (rx_script (kiosk_with [(Some (frame 0x100 8 [0, 0, 0, 0, 0, 0, 0, 0]), 10),
                                                     (Some (frame 0x101 8 [0, 0, 0, 0, 0, 0, 0, 0]), 10)]))) < 3
   \<and> fst (autoDetectCANBaudRate (kiosk_with [(Some (frame 0x100 8 [0, 0, 0, 0, 0, 0, 0, 0]), 10),
                                                (Some (frame 0x101 8 [0, 0, 0, 0, 0, 0, 0, 0]), 10)])) = 0"
proof -
  let ?u1 = "c2_input\<lparr>install_script := [], timing_log := [TIMING_500KBITS]\<rparr>"
  let ?u2 = "c2_input\<lparr>install_script := [], start_script := [],
                   timing_log := [TIMING_500KBITS, TIMING_250KBITS]\<rparr>"
  let ?u3 = "c2_input\<lparr>install_script := [], start_script := [],
                   timing_log := [TIMING_500KBITS, TIMING_250KBITS, TIMING_125KBITS]\<rparr>"
  let ?pre = "[(Some (frame 0x100 8 [0, 0, 0, 0, 0, 0, 0, 0]), 10), (None, 100),
               (Some (frame 0x101 8 [0, 0, 0, 0, 0, 0, 0, 0]), 20),
               (Some (frame 0x100 8 [0, 0, 0, 0, 0, 0, 0, 0]), 30 :: nat)]"
  let ?rest = "[(Some (frame 0x102 8 [0, 0, 0, 0, 0, 0, 0, 0]), 40 :: nat)]"
  let ?fin = "c2_input\<lparr>install_script := [], start_script := [],
                  timing_log := [TIMING_500KBITS, TIMING_250KBITS, TIMING_125KBITS],
                  clock := 160, rx_script := ?rest\<rparr>"
  let ?q = "kiosk_with [(Some (frame 0x100 8 [0, 0, 0, 0, 0, 0, 0, 0]), 10),
                        (Some (frame 0x101 8 [0, 0, 0, 0, 0, 0, 0, 0]), 10)]"
  have b: "500000 \<in> set baudRates" "250000 \<in> set baudRates" by (simp_all add: baudRates_def)
  have sc: "start_script c2_input = [False]" "install_script c2_input = [False]"
    "install_script ?u1 = []" "start_script ?u1 = [False]"
    by (simp_all add: c2_input_def kiosk_with_def)
  have h1: "reinitializeCAN 500000 c2_input = (False, ?u1)"
    and h2: "reinitializeCAN 250000 ?u1 = (False, ?u2)"
    and h3: "reinitializeCAN 125000 ?u2 = (True, ?u3)"
    by (simp_all add: c2_input_def kiosk_with_def reinitializeCAN_def twai_driver_install_def
        twai_start_def)
  have h4: "rx_script ?u3 = ?pre @ ?rest \<and> length (filter is_frame ?pre) = 3
      \<and> is_frame (last ?pre) \<and> sum_list (map snd (butlast ?pre)) < BAUD_DETECT_TIMEOUT_MS"
    by (simp add: c2_input_def kiosk_with_def BAUD_DETECT_TIMEOUT_MS_def)
  have h5: "?u3\<lparr>clock := clock ?u3 + sum_list (map snd ?pre), rx_script := ?rest\<rparr> = ?fin"
    by (simp add: c2_input_def kiosk_with_def)
  have h6: "length (filter is_frame (rx_script ?q)) < 3" by (simp add: kiosk_with_def)
  note T1 = autoDetect_priority_order[where s = c2_input and b = 500000 and u = c2_input and ?u1.0 = ?u1]
  note T2 = autoDetect_priority_order[where b = 250000 and u = ?u1 and ?u1.0 = ?u2]
  note T3 = autoDetect_priority_order[where b = 125000 and u = ?u2 and ?u1.0 = ?u3
      and t = ?u3 and pre = ?pre and rest = ?rest]
  note T4 = autoDetect_priority_order[where s = ?q]
  note cascade = T1[THEN conjunct1]
  note fail1 = T1[THEN conjunct2, THEN conjunct2, THEN conjunct1, rule_format, OF b(1)]
  note fail2 = T2[THEN conjunct2, THEN conjunct2, THEN conjunct1, rule_format, OF b(2)]
  note skip1 = T1[THEN conjunct2, THEN conjunct2, THEN conjunct2, THEN conjunct1, rule_format,
      OF h1, THEN conjunct1]
  note skip2 = T2[THEN conjunct2, THEN conjunct2, THEN conjunct2, THEN conjunct1, rule_format,
      OF h2, THEN conjunct1]
  note listen3 = T3[THEN conjunct2, THEN conjunct2, THEN conjunct2, THEN conjunct2,
      THEN conjunct1, rule_format, OF h3, THEN conjunct1]
  note detect3 = T3[THEN conjunct2, THEN conjunct2, THEN conjunct2, THEN conjunct2,
      THEN conjunct2, THEN conjunct1, rule_format, OF h4]
  note quiet = T4[THEN conjunct2, THEN conjunct2, THEN conjunct2, THEN conjunct2,
      THEN conjunct2, THEN conjunct2, THEN conjunct2, THEN conjunct2, rule_format, OF h6]
  from fail1 sc have f1: "\<not> fst (reinitializeCAN 500000 c2_input)" by simp
  from fail2 sc have f2: "\<not> fst (reinitializeCAN 250000 ?u1)" by simp
  from listen3 detect3 h5 have t3: "try_baud 125000 ?u2 = (True, ?fin)" by simp
  from cascade skip1 skip2 t3 have res: "autoDetectCANBaudRate c2_input = (125000, ?fin)" by simp
  from sc(1) b f1 skip1 f2 skip2 t3 res h6 quiet show ?thesis by simp
qed

section \<open>Claims about ECU discovery\<close>

text \<open>
  Claim C3, as amended. Every entry recorded while the address at index \<open>i\<close> is probed is
  the probed request identifier plus 8 or lies in \<^verbatim>\<open>0x7E8..0x7EF\<close>, and at most one entry
  is recorded per address. Subtracting 8 from an entry therefore gives one of the sixteen
  standard request identifiers; it gives the probed one when the entry is the probed
  identifier plus 8. The same holds for every entry the whole discovery phase records.
\<close>

theorem discovery_entries_answer_probe:
  "(i < NUM_ECUS \<longrightarrow>
      (\<exists>ys. activeECUs (probe_address i s) = activeECUs s @ ys \<and> length ys \<le> 1
         \<and> (\<forall>r\<in>set ys. (r = OBD2_ADDRESSES ! i + 8 \<or> (0x7E8 \<le> r \<and> r \<le> 0x7EF))
                \<and> r - 8 \<in> set OBD2_ADDRESSES
                \<and> (r = OBD2_ADDRESSES ! i + 8 \<longrightarrow> r - 8 = OBD2_ADDRESSES ! i))))
   \<and> (\<exists>ys. activeECUs (probeOBD2ECUsWithTimeout timeout_ms s) = activeECUs s @ ys
         \<and> (\<forall>r\<in>set ys. r - 8 \<in> set OBD2_ADDRESSES))"
proof (intro conjI impI)
  assume i: "i < NUM_ECUS"
  from probe_address_effect[of i s]
  obtain ys where ys: "activeECUs (probe_address i s) = activeECUs s @ ys" "length ys \<le> 1"
    "\<forall>r\<in>set ys. answers (OBD2_ADDRESSES ! i) r" by blast
  show "\<exists>ys. activeECUs (probe_address i s) = activeECUs s @ ys \<and> length ys \<le> 1
         \<and> (\<forall>r\<in>set ys. (r = OBD2_ADDRESSES ! i + 8 \<or> (0x7E8 \<le> r \<and> r \<le> 0x7EF))
                \<and> r - 8 \<in> set OBD2_ADDRESSES
                \<and> (r = OBD2_ADDRESSES ! i + 8 \<longrightarrow> r - 8 = OBD2_ADDRESSES ! i))"
  proof (intro exI[of _ ys] conjI ballI impI)
    fix r assume r: "r \<in> set ys"
    with ys(3) have a: "answers (OBD2_ADDRESSES ! i) r" by blast
    then show "r = OBD2_ADDRESSES ! i + 8 \<or> (0x7E8 \<le> r \<and> r \<le> 0x7EF)" by (simp add: answers_def)
    from answers_request[OF i a] show "r - 8 \<in> set OBD2_ADDRESSES" .
    show "r - 8 = OBD2_ADDRESSES ! i" if "r = OBD2_ADDRESSES ! i + 8" using that by simp
  qed (use ys in simp_all)
next
  from probe_loop_fold[of 0 "millis s" timeout_ms s]
  obtain m where m: "m \<le> NUM_ECUS" "probe_loop 0 (millis s) timeout_ms s = fold probe_address [0..<m] s"
    by auto
  from fold_probe_effect[of 0 m s]
  obtain ys where ys: "activeECUs (fold probe_address [0..<m] s) = activeECUs s @ ys"
    "\<forall>r\<in>set ys. \<exists>j. 0 \<le> j \<and> j < m \<and> answers (OBD2_ADDRESSES ! j) r" by auto
  show "\<exists>ys. activeECUs (probeOBD2ECUsWithTimeout timeout_ms s) = activeECUs s @ ys
         \<and> (\<forall>r\<in>set ys. r - 8 \<in> set OBD2_ADDRESSES)"
  proof (intro exI[of _ ys] conjI ballI)
    show "activeECUs (probeOBD2ECUsWithTimeout timeout_ms s) = activeECUs s @ ys"
      using m(2) ys(1) by (simp add: probeOBD2ECUsWithTimeout_def)
    fix r assume "r \<in> set ys"
    with ys(2) obtain j where "j < m" "answers (OBD2_ADDRESSES ! j) r" by blast
    with m(1) show "r - 8 \<in> set OBD2_ADDRESSES" by (intro answers_request[of j]) simp_all
  qed
qed

text \<open>
  The ECU answering the request to \<^verbatim>\<open>0x7E0\<close>: the entry is the probed identifier plus 8.
\<close>

theorem discovery_entries_answer_probe_witness:
  "0 < NUM_ECUS
   \<and> activeECUs (probe_address 0 (kiosk_with [(Some pid_answer, 10)])) = [0x7E8]
   \<and> ((0x7E8 :: u16) = OBD2_ADDRESSES ! 0 + 8 \<or> ((0x7E8 :: u16) \<le> 0x7E8 \<and> (0x7E8 :: u16) \<le> 0x7EF))
   \<and> (0x7E8 :: u16) - 8 \<in> set OBD2_ADDRESSES
   \<and> (0x7E8 :: u16) = OBD2_ADDRESSES ! 0 + 8
   \<and> (0x7E8 :: u16) - 8 = OBD2_ADDRESSES ! 0"
proof -
  let ?s = "kiosk_with [(Some pid_answer, 10)]"
  have n: "0 < NUM_ECUS" by (simp add: NUM_ECUS_16)
  have a: "activeECUs ?s = []" by (simp add: kiosk_with_def)
  have e: "activeECUs (probe_address 0 ?s) = [0x7E8]" by (simp add: answer_recorded)
  have r: "(0x7E8 :: u16) = OBD2_ADDRESSES ! 0 + 8" by (simp add: OBD2_ADDRESSES_def)
  from discovery_entries_answer_probe[of 0 ?s 0, THEN conjunct1, rule_format, OF n]
  obtain ys where ys: "activeECUs (probe_address 0 ?s) = activeECUs ?s @ ys"
    "\<forall>r\<in>set ys. (r = OBD2_ADDRESSES ! 0 + 8 \<or> (0x7E8 \<le> r \<and> r \<le> 0x7EF))
                \<and> r - 8 \<in> set OBD2_ADDRESSES
                \<and> (r = OBD2_ADDRESSES ! 0 + 8 \<longrightarrow> r - 8 = OBD2_ADDRESSES ! 0)"
    by blast
  from ys(1) a e have "ys = [0x7E8]" by simp
  with ys(2) have "((0x7E8 :: u16) = OBD2_ADDRESSES ! 0 + 8 \<or> ((0x7E8 :: u16) \<le> 0x7E8 \<and> (0x7E8 :: u16) \<le> 0x7EF))
      \<and> (0x7E8 :: u16) - 8 \<in> set OBD2_ADDRESSES
      \<and> ((0x7E8 :: u16) = OBD2_ADDRESSES ! 0 + 8 \<longrightarrow> (0x7E8 :: u16) - 8 = OBD2_ADDRESSES ! 0)"
    by simp
  with n e r show ?thesis by blast
qed

text \<open>
  The same frame arriving while \<^verbatim>\<open>0x7E1\<close> is probed is recorded as well, and 8 less than
  the entry is not the probed identifier.
\<close>

theorem discovery_entry_of_other_address_counterexample:
  "activeECUs (probe_address 1 (kiosk_with [(Some pid_answer, 10)])) = [0x7E8]
   \<and> tx_log (probe_address 1 (kiosk_with [(Some pid_answer, 10)])) = [(0, supported_pid_query 0x7E1)]
   \<and> OBD2_ADDRESSES ! 1 = 0x7E1
   \<and> msg_identifier (supported_pid_query (OBD2_ADDRESSES ! 1)) = 0x7E1
   \<and> (0x7E8 :: u16) - 8 \<noteq> OBD2_ADDRESSES ! 1"
  using answer_recorded_late by (simp add: OBD2_ADDRESSES_def supported_pid_query_def)

text \<open>
  Claim C5. If the sub-deadline has not elapsed when address \<open>k\<close> is about to be probed and
  has elapsed once it has been probed, the discovery phase ends in exactly the state reached
  by probing the addresses \<open>0..k\<close> one after the other: the requests sent are those for the
  addresses \<open>0..k\<close>, each once and in order, none for an address beyond \<open>k\<close>, and the entries
  found after each of these addresses are still there, in the same positions.
\<close>

theorem probe_deadline_stops:
  assumes "k < NUM_ECUS"
    and "\<not> timeout_ms < millis (fold probe_address [0..<k] s) - millis s"
    and "timeout_ms < millis (fold probe_address [0..<Suc k] s) - millis s"
  shows "probeOBD2ECUsWithTimeout timeout_ms s = fold probe_address [0..<Suc k] s
     \<and> map snd (tx_log (probeOBD2ECUsWithTimeout timeout_ms s)) =
         map snd (tx_log s) @ map supported_pid_query (take (Suc k) OBD2_ADDRESSES)
     \<and> distinct (map supported_pid_query (take (Suc k) OBD2_ADDRESSES))
     \<and> (\<forall>j \<le> Suc k. prefix (activeECUs (fold probe_address [0..<j] s))
                             (activeECUs (probeOBD2ECUsWithTimeout timeout_ms s)))"
proof -
  let ?run = "\<lambda>j. fold probe_address [0..<j] s"
  from probe_loop_fold[of 0 "millis s" timeout_ms s]
  obtain m where m: "m \<le> NUM_ECUS" "probe_loop 0 (millis s) timeout_ms s = ?run m"
    "m < NUM_ECUS \<longrightarrow> timeout_ms < millis (?run m) - millis s"
    "\<forall>j. j < m \<longrightarrow> \<not> timeout_ms < millis (?run j) - millis s"
    by auto
  have "m = Suc k"
  proof (rule ccontr)
    assume "m \<noteq> Suc k"
    then consider "m \<le> k" | "Suc k < m" by linarith
    then show False
    proof cases
      case 1
      with assms(1) m(3) have "timeout_ms < millis (?run m) - millis s" by simp
      moreover have "clock (?run m) \<le> clock (?run k)"
        using fold_probe_clock_mono[of 0 m k s] 1 by simp
      ultimately have "timeout_ms < millis (?run k) - millis s" by (simp add: millis_def)
      with assms(2) show False by simp
    next
      case 2
      with m(4) have "\<not> timeout_ms < millis (?run (Suc k)) - millis s" by blast
      with assms(3) show False by simp
    qed
  qed
  with m(2) have eq: "probeOBD2ECUsWithTimeout timeout_ms s = ?run (Suc k)"
    by (simp add: probeOBD2ECUsWithTimeout_def)
  have len: "Suc k \<le> length OBD2_ADDRESSES" using assms(1) by (simp add: NUM_ECUS_def)
  have tx: "map snd (tx_log (?run (Suc k))) =
         map snd (tx_log s) @ map supported_pid_query (take (Suc k) OBD2_ADDRESSES)"
    using fold_probe_effect[of 0 "Suc k" s] map_query_upt[OF len, of supported_pid_query]
    by simp
  have di: "distinct (map supported_pid_query (take (Suc k) OBD2_ADDRESSES))"
    using distinct_queries by (simp add: take_map[symmetric] distinct_take)
  have pre: "prefix (activeECUs (?run j)) (activeECUs (?run (Suc k)))" if "j \<le> Suc k" for j
  proof -
    from fold_probe_effect[of j "Suc k" "?run j"] that
    obtain ys where "activeECUs (fold probe_address [j..<Suc k] (?run j)) = activeECUs (?run j) @ ys"
      by blast
    moreover have "fold probe_address [j..<Suc k] (?run j) = ?run (Suc k)"
      using fold_probe_split[of 0 j "Suc k" s] that by simp
    ultimately show ?thesis by (simp add: prefix_def)
  qed
  from eq tx di pre show ?thesis by simp
qed

text \<open>
  With the stalled second probe the sub-deadline has elapsed after address 1: two requests
  were sent, and the entry found at address 0 is kept.
\<close>

theorem probe_deadline_stops_witness:
  "Suc 0 < NUM_ECUS
   \<and> millis (fold probe_address [0..<Suc 0] stalled_probe) - millis stalled_probe = 60
   \<and> millis (fold probe_address [0..<Suc (Suc 0)] stalled_probe) - millis stalled_probe = 16110
   \<and> probeOBD2ECUsWithTimeout ECU_PROBE_TIMEOUT_MS stalled_probe =
       fold probe_address [0..<Suc (Suc 0)] stalled_probe
   \<and> map snd (tx_log (probeOBD2ECUsWithTimeout ECU_PROBE_TIMEOUT_MS stalled_probe)) =
       [supported_pid_query 0x7E0, supported_pid_query 0x7E1]
   \<and> activeECUs (probeOBD2ECUsWithTimeout ECU_PROBE_TIMEOUT_MS stalled_probe) = [0x7E8]
   \<and> prefix (activeECUs (fold probe_address [0..<Suc 0] stalled_probe))
        (activeECUs (probeOBD2ECUsWithTimeout ECU_PROBE_TIMEOUT_MS stalled_probe))"
proof -
  have k: "Suc 0 < NUM_ECUS" by (simp add: NUM_ECUS_16)
  have m0: "millis stalled_probe = 0" by (simp add: stalled_probe_def kiosk_with_def millis_def)
  have m1: "millis (fold probe_address [0..<Suc 0] stalled_probe) = 60"
    unfolding stalled_probe_0 by (simp add: millis_def)
  have m2: "millis (fold probe_address [0..<Suc (Suc 0)] stalled_probe) = 16110"
    unfolding stalled_probe_1 by (simp add: millis_def)
  have h1: "\<not> ECU_PROBE_TIMEOUT_MS < millis (fold probe_address [0..<Suc 0] stalled_probe) - millis stalled_probe"
    unfolding m0 m1 by (simp add: ECU_PROBE_TIMEOUT_MS_def)
  have h2: "ECU_PROBE_TIMEOUT_MS < millis (fold probe_address [0..<Suc (Suc 0)] stalled_probe) - millis stalled_probe"
    unfolding m0 m2 by (simp add: ECU_PROBE_TIMEOUT_MS_def)
  note T = probe_deadline_stops[OF k h1 h2]
  note stop = T[THEN conjunct1]
  note sent = T[THEN conjunct2, THEN conjunct1]
  note kept = T[THEN conjunct2, THEN conjunct2, THEN conjunct2, rule_format, of "Suc 0"]
  have tx0: "tx_log stalled_probe = []" by (simp add: stalled_probe_def kiosk_with_def)
  from sent tx0 have s: "map snd (tx_log (probeOBD2ECUsWithTimeout ECU_PROBE_TIMEOUT_MS stalled_probe)) =
       [supported_pid_query 0x7E0, supported_pid_query 0x7E1]"
    by (simp add: OBD2_ADDRESSES_def)
  have a: "activeECUs (probeOBD2ECUsWithTimeout ECU_PROBE_TIMEOUT_MS stalled_probe) = [0x7E8]"
    unfolding stop stalled_probe_1 by simp
  from kept have p: "prefix (activeECUs (fold probe_address [0..<Suc 0] stalled_probe))
        (activeECUs (probeOBD2ECUsWithTimeout ECU_PROBE_TIMEOUT_MS stalled_probe))" by simp
  from k m0 m1 m2 stop s a p show ?thesis by simp
qed

lemma scan_entries_and_wait:
  assumes "wf_rx s0"
  shows "(\<exists>s' ys. performDiagnosticScan s0 = Inr s' \<and> activeECUs s' = concat ys
            \<and> length ys \<le> NUM_ECUS
            \<and> (\<forall>j < length ys. length (ys ! j) \<le> 1
                  \<and> (\<forall>r\<in>set (ys ! j). answers (OBD2_ADDRESSES ! j) r))
            \<and> length (activeECUs s') \<le> NUM_ECUS)
       \<and> ((activeECUs (probe_wait a st s) = activeECUs s
             \<and> (\<exists>pre. rx_script s = pre @ rx_script (probe_wait a st s) \<and> unqualified a pre))
          \<or> (\<exists>pre m d. rx_script s = pre @ (Some m, d) # rx_script (probe_wait a st s)
                \<and> unqualified a pre \<and> qualifies a m
                \<and> activeECUs (probe_wait a st s) = activeECUs s @ [ucast (msg_identifier m)]))"
proof (rule conjI)
  note d = after_detection_effect[of s0]
  note l = after_listening_effect[of s0]
  from after_discovery_effect[of s0] obtain m ys where m: "m \<le> NUM_ECUS" "length ys = m"
    "activeECUs (after_discovery s0) = concat ys"
    "\<forall>j < m. length (ys ! j) \<le> 1 \<and> (\<forall>r\<in>set (ys ! j). answers (OBD2_ADDRESSES ! j) r)"
    by blast
  from scanAllDTCs_effect[OF wf_rx_after[OF assms]]
  obtain s9 where s9: "scanAllDTCs (after_discovery s0) = Inr s9"
    "activeECUs s9 = activeECUs (after_discovery s0)" by blast
  have empty: "\<exists>s' ys. performDiagnosticScan s0 = Inr s' \<and> activeECUs s' = concat ys
            \<and> length ys \<le> NUM_ECUS
            \<and> (\<forall>j < length ys. length (ys ! j) \<le> 1
                  \<and> (\<forall>r\<in>set (ys ! j). answers (OBD2_ADDRESSES ! j) r))
            \<and> length (activeECUs s') \<le> NUM_ECUS"
    if "performDiagnosticScan s0 = Inr t" "activeECUs t = []" for t
    using that by (intro exI[of _ t] exI[of _ "[]"]) simp
  consider (nov) "detected_rate s0 = 0"
    | (to1) "detected_rate s0 \<noteq> 0" "deadline_passed s0 (after_detection s0)"
    | (to2) "detected_rate s0 \<noteq> 0" "\<not> deadline_passed s0 (after_detection s0)"
        "deadline_passed s0 (after_listening s0)"
    | (full) "detected_rate s0 \<noteq> 0" "\<not> deadline_passed s0 (after_detection s0)"
        "\<not> deadline_passed s0 (after_listening s0)"
    by blast
  then show "\<exists>s' ys. performDiagnosticScan s0 = Inr s' \<and> activeECUs s' = concat ys
            \<and> length ys \<le> NUM_ECUS
            \<and> (\<forall>j < length ys. length (ys ! j) \<le> 1
                  \<and> (\<forall>r\<in>set (ys ! j). answers (OBD2_ADDRESSES ! j) r))
            \<and> length (activeECUs s') \<le> NUM_ECUS"
  proof cases
    case nov
    then have "performDiagnosticScan s0 = Inr (no_vehicle (after_detection s0))"
      by (simp add: scan_cases)
    moreover have "activeECUs (no_vehicle (after_detection s0)) = []"
      using d by (simp add: no_vehicle_def delay_def updateScanProgress_def)
    ultimately show ?thesis by (rule empty)
  next
    case to1
    then have "performDiagnosticScan s0 = Inr (scan_timeout (after_detection s0))"
      by (simp add: scan_cases)
    moreover have "activeECUs (scan_timeout (after_detection s0)) = []"
      using d by (simp add: scan_timeout_def delay_def updateScanProgress_def)
    ultimately show ?thesis by (rule empty)
  next
    case to2
    then have "performDiagnosticScan s0 = Inr (scan_timeout (after_listening s0))"
      by (simp add: scan_cases)
    moreover have "activeECUs (scan_timeout (after_listening s0)) = []"
      using l by (simp add: scan_timeout_def delay_def updateScanProgress_def)
    ultimately show ?thesis by (rule empty)
  next
    case full
    let ?e = "updateScanProgress ''Scan complete!'' 100 s9"
    from full s9(1) have r: "performDiagnosticScan s0 = Inr ?e"
      by (simp add: scan_cases)
    have a: "activeECUs ?e = concat ys" using s9(2) m(3) by (simp add: updateScanProgress_def)
    have "length (concat ys) \<le> length ys" using m(2,4) by (intro concat_short) simp
    with a m(1,2) have b: "length (activeECUs ?e) \<le> NUM_ECUS" by simp
    from r a b m(1,2,4) show ?thesis by (intro exI[of _ ?e] exI[of _ ys]) simp
  qed
next
  from probe_wait_first[of a st s]
  show "(activeECUs (probe_wait a st s) = activeECUs s
             \<and> (\<exists>pre. rx_script s = pre @ rx_script (probe_wait a st s) \<and> unqualified a pre))
          \<or> (\<exists>pre m d. rx_script s = pre @ (Some m, d) # rx_script (probe_wait a st s)
                \<and> unqualified a pre \<and> qualifies a m
                \<and> activeECUs (probe_wait a st s) = activeECUs s @ [ucast (msg_identifier m)])" .
qed

text \<open>
  Claim C4, as amended. With well-formed frames a scan returns normally, and the active-ECU
  list it leaves is made of the entries recorded for the addresses \<open>0, 1, 2, ...\<close> in that
  order: at most one entry per probed address, at most sixteen in all, each one qualifying for
  the address it was recorded for. Nothing is said about the entries being different from one
  another. The wait for one address ends with the first qualifying frame, which is appended to
  the list, or with no entry when no qualifying frame was received; and whenever a qualifying
  frame is delivered by a receive call that begins inside the 800 ms of the wait, no
  qualifying one before it, the wait ends right after that call with the frame's identifier
  appended and the rest of the script unread.
\<close>

theorem active_list_in_discovery_order:
  assumes "wf_rx s0"
  shows "(\<exists>s' ys. performDiagnosticScan s0 = Inr s' \<and> activeECUs s' = concat ys
            \<and> length ys \<le> NUM_ECUS
            \<and> (\<forall>j < length ys. length (ys ! j) \<le> 1
                  \<and> (\<forall>r\<in>set (ys ! j). answers (OBD2_ADDRESSES ! j) r))
            \<and> length (activeECUs s') \<le> NUM_ECUS)
       \<and> ((activeECUs (probe_wait a st s) = activeECUs s
             \<and> (\<exists>pre. rx_script s = pre @ rx_script (probe_wait a st s) \<and> unqualified a pre))
          \<or> (\<exists>pre m d. rx_script s = pre @ (Some m, d) # rx_script (probe_wait a st s)
                \<and> unqualified a pre \<and> qualifies a m
                \<and> activeECUs (probe_wait a st s) = activeECUs s @ [ucast (msg_identifier m)]))
       \<and> (rx_script s = pre @ (Some m, d) # tail \<and> unqualified a pre \<and> qualifies a m
            \<and> clock s + sum_list (map snd pre) - st < 800 \<longrightarrow>
          probe_wait a st s =
            s\<lparr>clock := clock s + sum_list (map snd pre) + d, rx_script := tail,
              activeECUs := activeECUs s @ [ucast (msg_identifier m)]\<rparr>)"
proof -
  note old = scan_entries_and_wait[OF assms, of a st s]
  have new: "rx_script s = pre @ (Some m, d) # tail \<and> unqualified a pre \<and> qualifies a m
            \<and> clock s + sum_list (map snd pre) - st < 800 \<longrightarrow>
          probe_wait a st s =
            s\<lparr>clock := clock s + sum_list (map snd pre) + d, rx_script := tail,
              activeECUs := activeECUs s @ [ucast (msg_identifier m)]\<rparr>"
    using probe_wait_records[of s pre m d tail a st] by simp
  from old[THEN conjunct1] old[THEN conjunct2] new show ?thesis by (intro conjI)
qed

text \<open>
  The scan of \<open>one_ecu\<close> leaves one entry. In the wait with a timed-out call and two frames
  of the ECU, the first frame is recorded and the second is left unread.
\<close>

theorem active_list_in_discovery_order_witness:
  "wf_rx one_ecu
   \<and> (\<exists>s'. performDiagnosticScan one_ecu = Inr s' \<and> activeECUs s' = [0x7E8]
          \<and> length (activeECUs s') \<le> NUM_ECUS)
   \<and> rx_script answer_after_timeout = [(None, 50)] @ (Some pid_answer, 10) # [(Some pid_answer, 10)]
   \<and> unqualified 0x7E0 [(None, 50)] \<and> qualifies 0x7E0 pid_answer
   \<and> clock answer_after_timeout + sum_list (map snd [(None :: twai_message option, 50 :: nat)]) - 0 < 800
   \<and> probe_wait 0x7E0 0 answer_after_timeout =
        answer_after_timeout\<lparr>clock := 60, rx_script := [(Some pid_answer, 10)],
                              activeECUs := [0x7E8]\<rparr>
   \<and> (\<exists>pre m d. rx_script answer_after_timeout =
            pre @ (Some m, d) # rx_script (probe_wait 0x7E0 0 answer_after_timeout)
          \<and> unqualified 0x7E0 pre \<and> qualifies 0x7E0 m
          \<and> activeECUs (probe_wait 0x7E0 0 answer_after_timeout) =
              activeECUs answer_after_timeout @ [ucast (msg_identifier m)])"
proof -
  note T = active_list_in_discovery_order[OF runs_wf(1), of "0x7E0" 0 answer_after_timeout
      "[(None, 50)]" pid_answer 10 "[(Some pid_answer, 10)]"]
  from T[THEN conjunct1] obtain s' where s': "performDiagnosticScan one_ecu = Inr s'"
    "length (activeECUs s') \<le> NUM_ECUS" by (elim exE conjE) (rule that)
  from s'(1) have a: "activeECUs s' = [0x7E8]" unfolding one_ecu_scan by (auto simp: kiosk_with_def)
  from s'(1) a s'(2) have g: "\<exists>s'. performDiagnosticScan one_ecu = Inr s' \<and> activeECUs s' = [0x7E8]
          \<and> length (activeECUs s') \<le> NUM_ECUS" by (intro exI[of _ s'] conjI)
  have h: "rx_script answer_after_timeout = [(None, 50)] @ (Some pid_answer, 10) # [(Some pid_answer, 10)]"
    "unqualified 0x7E0 [(None, 50)]" "qualifies 0x7E0 pid_answer"
    "clock answer_after_timeout + sum_list (map snd [(None :: twai_message option, 50 :: nat)]) - 0 < 800"
    by (simp_all add: answer_after_timeout_def kiosk_with_def qualifies_def pid_answer_def frame_def)
  from T[THEN conjunct2, THEN conjunct2, rule_format, OF conjI[OF h(1) conjI[OF h(2) conjI[OF h(3,4)]]]]
  have w: "probe_wait 0x7E0 0 answer_after_timeout =
        answer_after_timeout\<lparr>clock := 60, rx_script := [(Some pid_answer, 10)],
                              activeECUs := [0x7E8]\<rparr>"
    by (simp add: answer_after_timeout_def kiosk_with_def pid_answer_def frame_def)
  have n: "activeECUs (probe_wait 0x7E0 0 answer_after_timeout) \<noteq> activeECUs answer_after_timeout"
    unfolding w by (simp add: answer_after_timeout_def kiosk_with_def)
  from T[THEN conjunct2, THEN conjunct1] n
  have f: "\<exists>pre m d. rx_script answer_after_timeout =
            pre @ (Some m, d) # rx_script (probe_wait 0x7E0 0 answer_after_timeout)
          \<and> unqualified 0x7E0 pre \<and> qualifies 0x7E0 m
          \<and> activeECUs (probe_wait 0x7E0 0 answer_after_timeout) =
              activeECUs answer_after_timeout @ [ucast (msg_identifier m)]"
    by simp
  from runs_wf(1) g h w f show ?thesis by (intro conjI)
qed

text \<open>
  The scan of \<open>two_answers\<close> leaves the identifier \<^verbatim>\<open>0x7E8\<close> twice in the list.
\<close>

theorem active_list_duplicate_counterexample:
  "\<exists>s'. performDiagnosticScan two_answers = Inr s' \<and> activeECUs s' = [0x7E8, 0x7E8]
      \<and> \<not> distinct (activeECUs s')"
  unfolding two_answers_scan by (simp add: kiosk_with_def)

section \<open>Claims about DTC collection\<close>

lemma no_answer_turn:
  assumes "twai_transmit (stored_dtc_query (if 0x7E8 \<le> ecu \<and> ecu \<le> 0x7EF then ecu - 8 else ecu)) 100 s
             = (True, s1)"
    and "dtc_wait ecu (millis s1) s1 = (r, s2)"
    and "r = None \<or> (\<exists>m. r = Some m \<and> data_length_code m \<le> 2)"
  shows "scan_ecu ecu s = Inr (delay 100 s2)
       \<and> detectedCodes (delay 100 s2) = detectedCodes s
       \<and> scanAllDTCs_loop (ecu # rest) s = scanAllDTCs_loop rest (delay 100 s2)
       \<and> (no_answer_in ecu (rx_script s1) \<longrightarrow> r = None)
       \<and> (r = None \<longrightarrow> 1000 \<le> millis s2 - millis s1
             \<and> (\<exists>pre. rx_script s1 = pre @ rx_script s2 \<and> no_answer_in ecu pre))"
proof -
  note sc = scan_ecu_cases[OF assms(1,2)]
  from assms(3) have a: "scan_ecu ecu s = Inr (delay 100 s2)"
    unfolding sc by (auto simp: not_less)
  from transmit_effect[OF assms(1)] dtc_wait_effect[OF assms(2)]
  have b: "detectedCodes (delay 100 s2) = detectedCodes s" by (simp add: delay_def view_def)
  have c: "scanAllDTCs_loop (ecu # rest) s = scanAllDTCs_loop rest (delay 100 s2)"
    using a by simp
  have d: "no_answer_in ecu (rx_script s1) \<longrightarrow> r = None"
    using no_answer_gives_None[of ecu s1 "millis s1"] assms(2) by simp
  have e: "r = None \<longrightarrow> 1000 \<le> millis s2 - millis s1
             \<and> (\<exists>pre. rx_script s1 = pre @ rx_script s2 \<and> no_answer_in ecu pre)"
    using dtc_wait_effect[OF assms(2)] by auto
  from a b c d e show ?thesis by blast
qed

text \<open>
  Claim C7. When the request to an active ECU has been sent and the wait ends with no frame
  of the ECU's identifier, or with one whose length code is 2 or less, the ECU's turn returns
  normally with \<^verbatim>\<open>detectedCodes\<close> unchanged, and the loop goes on with the next ECU. The
  wait ends with no frame whenever none of the frames still to come carries the ECU's
  identifier; and when it ends with none, at least a second has passed and none of the frames
  received meanwhile carried it. Whenever the receive calls that fill the second deliver no
  frame of the ECU's identifier, the last of them beginning inside the second, the wait ends
  with none right after that call.
\<close>

theorem dtc_no_answer_no_codes:
  assumes "twai_transmit (stored_dtc_query (if 0x7E8 \<le> ecu \<and> ecu \<le> 0x7EF then ecu - 8 else ecu)) 100 s
             = (True, s1)"
    and "dtc_wait ecu (millis s1) s1 = (r, s2)"
    and "r = None \<or> (\<exists>m. r = Some m \<and> data_length_code m \<le> 2)"
  shows "scan_ecu ecu s = Inr (delay 100 s2)
       \<and> detectedCodes (delay 100 s2) = detectedCodes s
       \<and> scanAllDTCs_loop (ecu # rest) s = scanAllDTCs_loop rest (delay 100 s2)
       \<and> (no_answer_in ecu (rx_script s1) \<longrightarrow> r = None)
       \<and> (r = None \<longrightarrow> 1000 \<le> millis s2 - millis s1
             \<and> (\<exists>pre. rx_script s1 = pre @ rx_script s2 \<and> no_answer_in ecu pre))
       \<and> (rx_script s1 = pre @ tail \<and> no_answer_in ecu pre
            \<and> 1000 \<le> sum_list (map snd pre) \<and> sum_list (map snd (butlast pre)) < 1000 \<longrightarrow>
          r = None \<and> s2 = s1\<lparr>clock := clock s1 + sum_list (map snd pre), rx_script := tail\<rparr>)"
proof -
  note old = no_answer_turn[OF assms, of rest]
  have new: "rx_script s1 = pre @ tail \<and> no_answer_in ecu pre
            \<and> 1000 \<le> sum_list (map snd pre) \<and> sum_list (map snd (butlast pre)) < 1000 \<longrightarrow>
          r = None \<and> s2 = s1\<lparr>clock := clock s1 + sum_list (map snd pre), rx_script := tail\<rparr>"
  proof
    assume a: "rx_script s1 = pre @ tail \<and> no_answer_in ecu pre
            \<and> 1000 \<le> sum_list (map snd pre) \<and> sum_list (map snd (butlast pre)) < 1000"
    then have "dtc_wait ecu (millis s1) s1 =
        (None, s1\<lparr>clock := clock s1 + sum_list (map snd pre), rx_script := tail\<rparr>)"
      by (intro dtc_wait_expires) (simp_all add: millis_def)
    with assms(2) show "r = None \<and> s2 = s1\<lparr>clock := clock s1 + sum_list (map snd pre), rx_script := tail\<rparr>"
      by simp
  qed
  from old new show ?thesis by simp
qed

text \<open>
  The silent bus and the too-short answer: in both the turn of \<^verbatim>\<open>0x7E8\<close> leaves no code
  and the loop goes on with \<^verbatim>\<open>0x7E9\<close>.
\<close>

theorem dtc_no_answer_no_codes_witness:
  "twai_transmit (stored_dtc_query 0x7E0) 100 silent_ecu =
     (True, silent_ecu\<lparr>tx_log := [(0, stored_dtc_query 0x7E0)]\<rparr>)
   \<and> dtc_wait 0x7E8 0 (silent_ecu\<lparr>tx_log := [(0, stored_dtc_query 0x7E0)]\<rparr>) =
     (None, silent_ecu\<lparr>tx_log := [(0, stored_dtc_query 0x7E0)], clock := 1000, rx_script := []\<rparr>)
   \<and> scan_ecu 0x7E8 silent_ecu =
     Inr (silent_ecu\<lparr>tx_log := [(0, stored_dtc_query 0x7E0)], clock := 1100, rx_script := []\<rparr>)
   \<and> detectedCodes (silent_ecu\<lparr>tx_log := [(0, stored_dtc_query 0x7E0)], clock := 1100, rx_script := []\<rparr>)
       = detectedCodes silent_ecu
   \<and> scanAllDTCs_loop [0x7E8, 0x7E9] silent_ecu =
     scanAllDTCs_loop [0x7E9]
       (silent_ecu\<lparr>tx_log := [(0, stored_dtc_query 0x7E0)], clock := 1100, rx_script := []\<rparr>)
   \<and> rx_script (silent_ecu\<lparr>tx_log := [(0, stored_dtc_query 0x7E0)]\<rparr>) = quiet 20 @ []
   \<and> no_answer_in 0x7E8 (quiet 20)
   \<and> 1000 \<le> sum_list (map snd (quiet 20)) \<and> sum_list (map snd (butlast (quiet 20))) < 1000
   \<and> silent_ecu\<lparr>tx_log := [(0, stored_dtc_query 0x7E0)], clock := 1000, rx_script := []\<rparr> =
       silent_ecu\<lparr>tx_log := [(0, stored_dtc_query 0x7E0)]\<rparr>
         \<lparr>clock := clock (silent_ecu\<lparr>tx_log := [(0, stored_dtc_query 0x7E0)]\<rparr>)
                     + sum_list (map snd (quiet 20)),
          rx_script := []\<rparr>
   \<and> twai_transmit (stored_dtc_query 0x7E0) 100 short_answer =
     (True, short_answer\<lparr>tx_log := [(0, stored_dtc_query 0x7E0)]\<rparr>)
   \<and> dtc_wait 0x7E8 0 (short_answer\<lparr>tx_log := [(0, stored_dtc_query 0x7E0)]\<rparr>) =
     (Some dtc_short, short_answer\<lparr>tx_log := [(0, stored_dtc_query 0x7E0)], clock := 10, rx_script := []\<rparr>)
   \<and> data_length_code dtc_short \<le> 2
   \<and> scan_ecu 0x7E8 short_answer =
     Inr (short_answer\<lparr>tx_log := [(0, stored_dtc_query 0x7E0)], clock := 110, rx_script := []\<rparr>)
   \<and> detectedCodes (short_answer\<lparr>tx_log := [(0, stored_dtc_query 0x7E0)], clock := 110, rx_script := []\<rparr>)
       = detectedCodes short_answer
   \<and> scanAllDTCs_loop [0x7E8, 0x7E9] short_answer =
     scanAllDTCs_loop [0x7E9]
       (short_answer\<lparr>tx_log := [(0, stored_dtc_query 0x7E0)], clock := 110, rx_script := []\<rparr>)"
proof -
  let ?a1 = "silent_ecu\<lparr>tx_log := [(0, stored_dtc_query 0x7E0)]\<rparr>"
  let ?a2 = "silent_ecu\<lparr>tx_log := [(0, stored_dtc_query 0x7E0)], clock := 1000, rx_script := []\<rparr>"
  let ?b1 = "short_answer\<lparr>tx_log := [(0, stored_dtc_query 0x7E0)]\<rparr>"
  let ?b2 = "short_answer\<lparr>tx_log := [(0, stored_dtc_query 0x7E0)], clock := 10, rx_script := []\<rparr>"
  have rq: "(if 0x7E8 \<le> (0x7E8 :: u16) \<and> (0x7E8 :: u16) \<le> 0x7EF then 0x7E8 - 8 else 0x7E8) = (0x7E0 :: u16)"
    by simp
  have ma: "millis ?a1 = 0" and mb: "millis ?b1 = 0"
    by (simp_all add: millis_def silent_ecu_def short_answer_def kiosk_with_def)
  have a1: "twai_transmit (stored_dtc_query 0x7E0) 100 silent_ecu = (True, ?a1)"
    by (simp add: twai_transmit_def silent_ecu_def kiosk_with_def)
  have a2: "dtc_wait 0x7E8 0 ?a1 = (None, ?a2)"
    by (subst dtc_wait_quiet[where k = 20 and rest = "[]"])
       (simp_all add: silent_ecu_def kiosk_with_def)
  have b1: "twai_transmit (stored_dtc_query 0x7E0) 100 short_answer = (True, ?b1)"
    by (simp add: twai_transmit_def short_answer_def kiosk_with_def)
  have b2: "dtc_wait 0x7E8 0 ?b1 = (Some dtc_short, ?b2)"
    by (subst dtc_wait.simps)
       (simp add: short_answer_def kiosk_with_def dtc_short_def frame_def twai_receive_def millis_def)
  have b3: "data_length_code dtc_short \<le> 2" by (simp add: dtc_short_def frame_def)
  have a2m: "dtc_wait 0x7E8 (millis ?a1) ?a1 = (None, ?a2)" unfolding ma by (rule a2)
  have b2m: "dtc_wait 0x7E8 (millis ?b1) ?b1 = (Some dtc_short, ?b2)" unfolding mb by (rule b2)
  have a4: "None = None \<or> (\<exists>m. (None :: twai_message option) = Some m \<and> data_length_code m \<le> 2)"
    by simp
  have b4: "Some dtc_short = None \<or> (\<exists>m. Some dtc_short = Some m \<and> data_length_code m \<le> 2)"
    using b3 by simp
  have q: "rx_script ?a1 = quiet 20 @ []" "no_answer_in 0x7E8 (quiet 20)"
    "1000 \<le> sum_list (map snd (quiet 20))" "sum_list (map snd (butlast (quiet 20))) < 1000"
    using quiet_butlast[of 19]
    by (simp_all add: silent_ecu_def kiosk_with_def quiet_no_answer quiet_sum)
  note A = dtc_no_answer_no_codes[where ecu = "0x7E8" and s = silent_ecu and rest = "[0x7E9]"
      and pre = "quiet 20" and tail = "[]", unfolded rq, OF a1 a2m a4]
  note B = dtc_no_answer_no_codes[where ecu = "0x7E8" and s = short_answer and rest = "[0x7E9]",
      unfolded rq, OF b1 b2m b4]
  have da: "delay 100 ?a2 = silent_ecu\<lparr>tx_log := [(0, stored_dtc_query 0x7E0)], clock := 1100, rx_script := []\<rparr>"
    by (simp add: delay_def)
  have db: "delay 100 ?b2 = short_answer\<lparr>tx_log := [(0, stored_dtc_query 0x7E0)], clock := 110, rx_script := []\<rparr>"
    by (simp add: delay_def)
  note A1 = A[THEN conjunct1, unfolded da]
  note A2 = A[THEN conjunct2, THEN conjunct1, unfolded da]
  note A3 = A[THEN conjunct2, THEN conjunct2, THEN conjunct1, unfolded da]
  note A6 = A[THEN conjunct2, THEN conjunct2, THEN conjunct2, THEN conjunct2, THEN conjunct2,
      rule_format, OF conjI[OF q(1) conjI[OF q(2) conjI[OF q(3,4)]]], THEN conjunct2]
  note B1 = B[THEN conjunct1, unfolded db]
  note B2 = B[THEN conjunct2, THEN conjunct1, unfolded db]
  note B3 = B[THEN conjunct2, THEN conjunct2, THEN conjunct1, unfolded db]
  from a1 a2 A1 A2 A3 q A6 b1 b2 b3 B1 B2 B3 show ?thesis by (intro conjI)
qed

lemma entry_turn:
  assumes "wf_rx s"
  shows "(\<exists>s' new. scan_ecu ecu s = Inr s' \<and> detectedCodes s' = detectedCodes s @ new
            \<and> length new \<le> 3 \<and> (\<forall>c\<in>set new. ecuId c = ecu))
       \<and> (dtc_wait ecu st t = (Some m, t') \<longrightarrow>
            msg_identifier m = ucast ecu
            \<and> (\<exists>pre d. rx_script t = pre @ (Some m, d) # rx_script t' \<and> no_answer_in ecu pre))
       \<and> (\<exists>s' new. scanAllDTCs s = Inr s' \<and> detectedCodes s' = detectedCodes s @ new
            \<and> (\<forall>e. length (filter (\<lambda>c. ecuId c = e) new) \<le> 3 * count_list (activeECUs s) e))"
proof (intro conjI impI)
  from scan_ecu_effect[OF assms, of ecu]
  show "\<exists>s' new. scan_ecu ecu s = Inr s' \<and> detectedCodes s' = detectedCodes s @ new
            \<and> length new \<le> 3 \<and> (\<forall>c\<in>set new. ecuId c = ecu)" by blast
next
  assume a: "dtc_wait ecu st t = (Some m, t')"
  from dtc_wait_effect[OF a] show "msg_identifier m = ucast ecu" by simp
  from dtc_wait_effect[OF a]
  show "\<exists>pre d. rx_script t = pre @ (Some m, d) # rx_script t' \<and> no_answer_in ecu pre" by simp
next
  from scanAllDTCs_effect[OF assms]
  show "\<exists>s' new. scanAllDTCs s = Inr s' \<and> detectedCodes s' = detectedCodes s @ new
            \<and> (\<forall>e. length (filter (\<lambda>c. ecuId c = e) new) \<le> 3 * count_list (activeECUs s) e)"
    by blast
qed

text \<open>
  Claim C10, as amended. With well-formed frames, the turn of one entry of the active-ECU
  list returns normally and adds at most three codes, all carrying the entry's identifier;
  the frame the wait ends on is the first one received with that identifier, and the script
  behind it is left unread by that wait. Over the whole collection an identifier contributes
  at most three codes for each time the list holds it. Whenever a frame with the entry's
  identifier is delivered by a receive call that begins inside the second of the wait, none
  with that identifier before it, the wait ends on that frame right after the call; and
  when its length code exceeds 2, the turn appends the codes of the byte pairs of that one
  frame, and nothing else, to \<^verbatim>\<open>detectedCodes\<close>.
\<close>

theorem one_frame_per_entry:
  assumes "wf_rx s"
  shows "(\<exists>s' new. scan_ecu ecu s = Inr s' \<and> detectedCodes s' = detectedCodes s @ new
            \<and> length new \<le> 3 \<and> (\<forall>c\<in>set new. ecuId c = ecu))
       \<and> (dtc_wait ecu st t = (Some m, t') \<longrightarrow>
            msg_identifier m = ucast ecu
            \<and> (\<exists>pre d. rx_script t = pre @ (Some m, d) # rx_script t' \<and> no_answer_in ecu pre))
       \<and> (\<exists>s' new. scanAllDTCs s = Inr s' \<and> detectedCodes s' = detectedCodes s @ new
            \<and> (\<forall>e. length (filter (\<lambda>c. ecuId c = e) new) \<le> 3 * count_list (activeECUs s) e))
       \<and> (rx_script t = pre @ (Some m, d) # tail \<and> no_answer_in ecu pre
            \<and> msg_identifier m = ucast ecu \<and> clock t + sum_list (map snd pre) - st < 1000 \<longrightarrow>
          dtc_wait ecu st t =
            (Some m, t\<lparr>clock := clock t + sum_list (map snd pre) + d, rx_script := tail\<rparr>))
       \<and> (twai_transmit (stored_dtc_query (if 0x7E8 \<le> ecu \<and> ecu \<le> 0x7EF then ecu - 8 else ecu)) 100 s
             = (True, s1)
            \<and> dtc_wait ecu (millis s1) s1 = (Some m, s2) \<and> 2 < data_length_code m \<longrightarrow>
          scan_ecu ecu s = Inr (delay 100 (s2\<lparr>detectedCodes := detectedCodes s @
             concat (map (\<lambda>k. if data m ! (2 + 2 * k) = 0 \<and> data m ! (2 + 2 * k + 1) = 0 then []
                              else [make_fault (data m ! (2 + 2 * k)) (data m ! (2 + 2 * k + 1)) ecu])
                         [0..<nat ((uint (data_length_code m) - 2) div 2)])\<rparr>)))"
proof -
  note old = entry_turn[OF assms, of ecu st t m t']
  have f1: "rx_script t = pre @ (Some m, d) # tail \<and> no_answer_in ecu pre
            \<and> msg_identifier m = ucast ecu \<and> clock t + sum_list (map snd pre) - st < 1000 \<longrightarrow>
          dtc_wait ecu st t =
            (Some m, t\<lparr>clock := clock t + sum_list (map snd pre) + d, rx_script := tail\<rparr>)"
    using dtc_wait_answers[of t pre m d tail ecu st] by simp
  have f2: "twai_transmit (stored_dtc_query (if 0x7E8 \<le> ecu \<and> ecu \<le> 0x7EF then ecu - 8 else ecu)) 100 s
             = (True, s1)
            \<and> dtc_wait ecu (millis s1) s1 = (Some m, s2) \<and> 2 < data_length_code m \<longrightarrow>
          scan_ecu ecu s = Inr (delay 100 (s2\<lparr>detectedCodes := detectedCodes s @
             concat (map (\<lambda>k. if data m ! (2 + 2 * k) = 0 \<and> data m ! (2 + 2 * k + 1) = 0 then []
                              else [make_fault (data m ! (2 + 2 * k)) (data m ! (2 + 2 * k + 1)) ecu])
                         [0..<nat ((uint (data_length_code m) - 2) div 2)])\<rparr>))"
  proof
    assume a: "twai_transmit (stored_dtc_query (if 0x7E8 \<le> ecu \<and> ecu \<le> 0x7EF then ecu - 8 else ecu)) 100 s
             = (True, s1)
            \<and> dtc_wait ecu (millis s1) s1 = (Some m, s2) \<and> 2 < data_length_code m"
    then have tx: "twai_transmit (stored_dtc_query (if 0x7E8 \<le> ecu \<and> ecu \<le> 0x7EF then ecu - 8 else ecu)) 100 s
             = (True, s1)"
      and w: "dtc_wait ecu (millis s1) s1 = (Some m, s2)" and long: "2 < data_length_code m"
      by simp_all
    from dtc_wait_effect[OF w] obtain p dd where "rx_script s1 = p @ (Some m, dd) # rx_script s2"
      by auto
    moreover from transmit_effect[OF tx] have "rx_script s1 = rx_script s" by simp
    ultimately have "rx_script s = p @ (Some m, dd) # rx_script s2" by simp
    then have "(Some m, dd) \<in> set (rx_script s)" by simp
    with assms have "wf_frame m" by (auto simp: wf_rx_def)
    from scan_ecu_decodes[OF tx w long this]
    show "scan_ecu ecu s = Inr (delay 100 (s2\<lparr>detectedCodes := detectedCodes s @
             concat (map (\<lambda>k. if data m ! (2 + 2 * k) = 0 \<and> data m ! (2 + 2 * k + 1) = 0 then []
                              else [make_fault (data m ! (2 + 2 * k)) (data m ! (2 + 2 * k + 1)) ecu])
                         [0..<nat ((uint (data_length_code m) - 2) div 2)])\<rparr>))" .
  qed
  from old[THEN conjunct1] old[THEN conjunct2, THEN conjunct1] old[THEN conjunct2, THEN conjunct2]
    f1 f2 show ?thesis by (intro conjI)
qed

text \<open>
  With two answers to come and the ECU listed once, the first answer is decoded into three
  codes and the second is left unread.
\<close>

theorem one_frame_per_entry_witness:
  "wf_rx dtc_two_frames
   \<and> count_list (activeECUs dtc_two_frames) 0x7E8 = 1
   \<and> (\<exists>s'. scanAllDTCs dtc_two_frames = Inr s'
         \<and> map code (detectedCodes s') = [''P0123'', ''C0100'', ''B0100'']
         \<and> rx_script s' = [(Some dtc_next, 10)]
         \<and> length (filter (\<lambda>c. ecuId c = 0x7E8) (detectedCodes s'))
             \<le> 3 * count_list (activeECUs dtc_two_frames) 0x7E8)
   \<and> rx_script dtc_two_frames = [] @ (Some dtc_first, 10) # [(Some dtc_next, 10)]
   \<and> no_answer_in 0x7E8 []
   \<and> clock dtc_two_frames + sum_list (map snd ([] :: (twai_message option \<times> nat) list)) - 0 < 1000
   \<and> dtc_wait 0x7E8 0 dtc_two_frames =
       (Some dtc_first, dtc_two_frames\<lparr>clock := 10, rx_script := [(Some dtc_next, 10)]\<rparr>)
   \<and> msg_identifier dtc_first = ucast (0x7E8 :: u16)
   \<and> (\<exists>pre d. rx_script dtc_two_frames = pre @ (Some dtc_first, d) # [(Some dtc_next, 10)]
          \<and> no_answer_in 0x7E8 pre)
   \<and> 2 < data_length_code dtc_first
   \<and> scan_ecu 0x7E8 dtc_two_frames =
       Inr (dtc_two_frames\<lparr>
          detectedCodes := [make_fault 0x01 0x23 0x7E8, make_fault 0x41 0x00 0x7E8,
                            make_fault 0x81 0x00 0x7E8],
          clock := 110, rx_script := [(Some dtc_next, 10)],
          tx_log := [(0, stored_dtc_query 0x7E0)]\<rparr>)"
proof -
  let ?t' = "dtc_two_frames\<lparr>clock := 10, rx_script := [(Some dtc_next, 10)]\<rparr>"
  let ?s1 = "dtc_two_frames\<lparr>tx_log := [(0, stored_dtc_query 0x7E0)]\<rparr>"
  let ?s2 = "dtc_two_frames\<lparr>tx_log := [(0, stored_dtc_query 0x7E0)], clock := 10,
                rx_script := [(Some dtc_next, 10)]\<rparr>"
  have rq: "(if 0x7E8 \<le> (0x7E8 :: u16) \<and> (0x7E8 :: u16) \<le> 0x7EF then 0x7E8 - 8 else 0x7E8) = (0x7E0 :: u16)"
    by simp
  have wf: "wf_rx dtc_two_frames"
    by (simp add: wf_rx_def dtc_two_frames_def kiosk_with_def frames_wf)
  have c: "count_list (activeECUs dtc_two_frames) 0x7E8 = 1"
    by (simp add: dtc_two_frames_def kiosk_with_def)
  have h: "rx_script dtc_two_frames = [] @ (Some dtc_first, 10) # [(Some dtc_next, 10)]"
    "no_answer_in 0x7E8 []"
    "clock dtc_two_frames + sum_list (map snd ([] :: (twai_message option \<times> nat) list)) - 0 < 1000"
    by (simp_all add: dtc_two_frames_def kiosk_with_def)
  have mi: "msg_identifier dtc_first = ucast (0x7E8 :: u16)" and long: "2 < data_length_code dtc_first"
    by (simp_all add: dtc_frames_answer)
  have ev: "scanAllDTCs dtc_two_frames = Inr
     ((kiosk_with [(Some dtc_next, 10)])\<lparr>
        detectedCodes := [make_fault 0x01 0x23 0x7E8, make_fault 0x41 0x00 0x7E8,
                          make_fault 0x81 0x00 0x7E8],
        activeECUs := [0x7E8], clock := 110, tx_log := [(0, stored_dtc_query 0x7E0)]\<rparr>)"
    by (simp add: dtc_two_frames_def eval_dtc)
  note T = one_frame_per_entry[OF wf, where ecu = "0x7E8" and st = 0 and t = dtc_two_frames
      and m = dtc_first and pre = "[]" and d = 10 and tail = "[(Some dtc_next, 10)]"
      and t' = ?t' and ?s1.0 = ?s1 and ?s2.0 = ?s2, unfolded rq]
  note fwd = T[THEN conjunct2, THEN conjunct2, THEN conjunct2, THEN conjunct1, rule_format,
      OF conjI[OF h(1) conjI[OF h(2) conjI[OF mi h(3)]]]]
  have w: "dtc_wait 0x7E8 0 dtc_two_frames = (Some dtc_first, ?t')"
    using fwd by (simp add: dtc_two_frames_def kiosk_with_def)
  from T[THEN conjunct2, THEN conjunct1, rule_format, OF w]
  have p: "\<exists>pre d. rx_script dtc_two_frames = pre @ (Some dtc_first, d) # [(Some dtc_next, 10)]
          \<and> no_answer_in 0x7E8 pre"
    by simp
  from T[THEN conjunct2, THEN conjunct2, THEN conjunct1]
  obtain s' new where s': "scanAllDTCs dtc_two_frames = Inr s'"
    "detectedCodes s' = detectedCodes dtc_two_frames @ new"
    "\<forall>e. length (filter (\<lambda>c. ecuId c = e) new) \<le> 3 * count_list (activeECUs dtc_two_frames) e"
    by (elim exE conjE) (rule that)
  have "detectedCodes dtc_two_frames = []" by (simp add: dtc_two_frames_def kiosk_with_def)
  with s'(2,3) have b: "length (filter (\<lambda>c. ecuId c = 0x7E8) (detectedCodes s'))
             \<le> 3 * count_list (activeECUs dtc_two_frames) 0x7E8" by simp
  from s'(1) have v: "map code (detectedCodes s') = [''P0123'', ''C0100'', ''B0100'']"
    "rx_script s' = [(Some dtc_next, 10)]"
    unfolding ev by (auto simp: kiosk_with_def codes_of_dtc_frames)
  from s'(1) v b have g: "\<exists>s'. scanAllDTCs dtc_two_frames = Inr s'
         \<and> map code (detectedCodes s') = [''P0123'', ''C0100'', ''B0100'']
         \<and> rx_script s' = [(Some dtc_next, 10)]
         \<and> length (filter (\<lambda>c. ecuId c = 0x7E8) (detectedCodes s'))
             \<le> 3 * count_list (activeECUs dtc_two_frames) 0x7E8" by (intro exI[of _ s'] conjI)
  have tx: "twai_transmit (stored_dtc_query 0x7E0) 100 dtc_two_frames = (True, ?s1)"
    by (simp add: twai_transmit_def dtc_two_frames_def kiosk_with_def)
  have w2: "dtc_wait 0x7E8 (millis ?s1) ?s1 = (Some dtc_first, ?s2)"
    by (subst dtc_wait.simps)
       (simp add: dtc_two_frames_def kiosk_with_def twai_receive_def millis_def dtc_frames_answer)
  note dec = T[THEN conjunct2, THEN conjunct2, THEN conjunct2, THEN conjunct2, rule_format,
      OF conjI[OF tx conjI[OF w2 long]]]
  have sc: "scan_ecu 0x7E8 dtc_two_frames =
       Inr (dtc_two_frames\<lparr>
          detectedCodes := [make_fault 0x01 0x23 0x7E8, make_fault 0x41 0x00 0x7E8,
                            make_fault 0x81 0x00 0x7E8],
          clock := 110, rx_script := [(Some dtc_next, 10)],
          tx_log := [(0, stored_dtc_query 0x7E0)]\<rparr>)"
    unfolding dec
    by (simp add: delay_def dtc_two_frames_def kiosk_with_def dtc_first_def frame_def upt_rec)
  from wf c g h w mi p long sc show ?thesis by (intro conjI)
qed

text \<open>
  In the scan of \<open>two_answers\<close> the ECU is listed twice, gets two Mode 03 requests, and
  both of its answers are decoded: six codes carry the identifier \<^verbatim>\<open>0x7E8\<close>.
\<close>

theorem six_codes_from_one_ecu_counterexample:
  "\<exists>s'. performDiagnosticScan two_answers = Inr s'
      \<and> map code (detectedCodes s') = [''P0123'', ''C0100'', ''B0100'', ''U0100'', ''P0234'', ''P0345'']
      \<and> map ecuId (detectedCodes s') = [0x7E8, 0x7E8, 0x7E8, 0x7E8, 0x7E8, 0x7E8]
      \<and> length (filter (\<lambda>c. ecuId c = 0x7E8) (detectedCodes s')) = 6
      \<and> map snd (drop 16 (tx_log s')) = [stored_dtc_query 0x7E0, stored_dtc_query 0x7E0]"
  unfolding two_answers_scan by (simp add: kiosk_with_def codes_of_dtc_frames)

section \<open>Claims about the orchestrator\<close>




text \<open>
  Claim C9, as amended. With well-formed frames a scan returns normally and what it hands to
  the progress display is: 0 and 100 when no vehicle is detected; 0 and 100 when the deadline
  has passed after detection; 0, 25, 50 and 100 when it has passed after listening; and
  otherwise 0, 25, 50, then the updates of the discovery loop for the addresses it probed
  (all sixteen unless its sub-deadline has elapsed), then 75 and 100. The updates of the
  discovery loop over all sixteen addresses are ``Checking ECU 1/16'' at 50, ``5/16'' at 56,
  ``9/16'' at 62 and ``13/16'' at 68 percent, so every percentage shown is one of 0, 25, 50,
  56, 62, 68, 75 and 100.
\<close>

theorem progress_sequence:
  assumes "wf_rx s0"
  shows "\<exists>s' m. performDiagnosticScan s0 = Inr s' \<and> m \<le> NUM_ECUS
     \<and> (detected_rate s0 = 0 \<longrightarrow>
          progress_log s' = progress_log s0 @
            [(''Detecting vehicle...'', 0), (''No vehicle detected'', 100)])
     \<and> (detected_rate s0 \<noteq> 0 \<and> deadline_passed s0 (after_detection s0) \<longrightarrow>
          progress_log s' = progress_log s0 @
            [(''Detecting vehicle...'', 0), (''Scan timeout'', 100)])
     \<and> (detected_rate s0 \<noteq> 0 \<and> \<not> deadline_passed s0 (after_detection s0)
          \<and> deadline_passed s0 (after_listening s0) \<longrightarrow>
          progress_log s' = progress_log s0 @
            [(''Detecting vehicle...'', 0), (''Vehicle found! Analyzing...'', 25),
             (''Reading vehicle data...'', 50), (''Scan timeout'', 100)])
     \<and> (detected_rate s0 \<noteq> 0 \<and> \<not> deadline_passed s0 (after_detection s0)
          \<and> \<not> deadline_passed s0 (after_listening s0) \<longrightarrow>
          progress_log s' = progress_log s0 @
            [(''Detecting vehicle...'', 0), (''Vehicle found! Analyzing...'', 25),
             (''Reading vehicle data...'', 50)]
            @ concat (map probe_progress [0..<m])
            @ [(''Checking systems...'', 75), (''Scan complete!'', 100)]
          \<and> (m < NUM_ECUS \<longrightarrow>
                ECU_PROBE_TIMEOUT_MS < millis (after_discovery s0) - millis (after_listening s0)))
     \<and> snd ` set (concat (map probe_progress [0..<m])) \<subseteq> {50, 56, 62, 68}
     \<and> concat (map probe_progress [0..<NUM_ECUS]) =
          [(''Checking ECU 1/16'', 50), (''Checking ECU 5/16'', 56), (''Checking ECU 9/16'', 62),
           (''Checking ECU 13/16'', 68)]
     \<and> snd ` set (progress_log s') \<subseteq> snd ` set (progress_log s0) \<union> {0, 25, 50, 56, 62, 68, 75, 100}"
proof -
  note d = after_detection_effect[of s0]
  note l = after_listening_effect[of s0]
  from after_discovery_effect[of s0] obtain m where m: "m \<le> NUM_ECUS"
    "progress_log (after_discovery s0) =
         progress_log s0 @ [(''Detecting vehicle...'', 0), (''Vehicle found! Analyzing...'', 25),
                            (''Reading vehicle data...'', 50)]
           @ concat (map probe_progress [0..<m]) @ [(''Checking systems...'', 75)]"
    "m < NUM_ECUS \<longrightarrow>
           ECU_PROBE_TIMEOUT_MS < millis (after_discovery s0) - millis (after_listening s0)"
    by (elim exE conjE) (rule that)
  note pc = discovery_percent[OF m(1)]
  from scanAllDTCs_effect[OF wf_rx_after[OF assms]]
  obtain s9 where s9: "scanAllDTCs (after_discovery s0) = Inr s9"
    "progress_log s9 = progress_log (after_discovery s0)"
    by (elim exE conjE) (rule that)
  define X where "X =
     (if detected_rate s0 = 0 then no_vehicle (after_detection s0)
      else if deadline_passed s0 (after_detection s0) then scan_timeout (after_detection s0)
      else if deadline_passed s0 (after_listening s0) then scan_timeout (after_listening s0)
      else updateScanProgress ''Scan complete!'' 100 s9)"
  have r: "performDiagnosticScan s0 = Inr X" by (simp add: scan_cases X_def s9(1))
  have i1: "detected_rate s0 = 0 \<longrightarrow>
          progress_log X = progress_log s0 @
            [(''Detecting vehicle...'', 0), (''No vehicle detected'', 100)]"
    using d by (simp add: X_def no_vehicle_def delay_def updateScanProgress_def)
  have i2: "detected_rate s0 \<noteq> 0 \<and> deadline_passed s0 (after_detection s0) \<longrightarrow>
          progress_log X = progress_log s0 @
            [(''Detecting vehicle...'', 0), (''Scan timeout'', 100)]"
    using d by (simp add: X_def scan_timeout_def delay_def updateScanProgress_def)
  have i3: "detected_rate s0 \<noteq> 0 \<and> \<not> deadline_passed s0 (after_detection s0)
          \<and> deadline_passed s0 (after_listening s0) \<longrightarrow>
          progress_log X = progress_log s0 @
            [(''Detecting vehicle...'', 0), (''Vehicle found! Analyzing...'', 25),
             (''Reading vehicle data...'', 50), (''Scan timeout'', 100)]"
    using l by (simp add: X_def scan_timeout_def delay_def updateScanProgress_def)
  have i4: "detected_rate s0 \<noteq> 0 \<and> \<not> deadline_passed s0 (after_detection s0)
          \<and> \<not> deadline_passed s0 (after_listening s0) \<longrightarrow>
          progress_log X = progress_log s0 @
            [(''Detecting vehicle...'', 0), (''Vehicle found! Analyzing...'', 25),
             (''Reading vehicle data...'', 50)]
            @ concat (map probe_progress [0..<m])
            @ [(''Checking systems...'', 75), (''Scan complete!'', 100)]
          \<and> (m < NUM_ECUS \<longrightarrow>
                ECU_PROBE_TIMEOUT_MS < millis (after_discovery s0) - millis (after_listening s0))"
    using s9(2) m(2,3) by (simp add: X_def updateScanProgress_def)
  have q: "snd ` set (progress_log X) \<subseteq> snd ` set (progress_log s0) \<union> {0, 25, 50, 56, 62, 68, 75, 100}"
  proof -
    consider (nov) "detected_rate s0 = 0"
      | (to1) "detected_rate s0 \<noteq> 0 \<and> deadline_passed s0 (after_detection s0)"
      | (to2) "detected_rate s0 \<noteq> 0 \<and> \<not> deadline_passed s0 (after_detection s0)
          \<and> deadline_passed s0 (after_listening s0)"
      | (full) "detected_rate s0 \<noteq> 0 \<and> \<not> deadline_passed s0 (after_detection s0)
          \<and> \<not> deadline_passed s0 (after_listening s0)"
      by blast
    then show ?thesis
    proof cases
      case nov
      with i1 show ?thesis by auto
    next
      case to1
      with i2 show ?thesis by auto
    next
      case to2
      with i3 show ?thesis by auto
    next
      case full
      with i4 have "progress_log X = progress_log s0 @
            [(''Detecting vehicle...'', 0), (''Vehicle found! Analyzing...'', 25),
             (''Reading vehicle data...'', 50)]
            @ concat (map probe_progress [0..<m])
            @ [(''Checking systems...'', 75), (''Scan complete!'', 100)]" by simp
      then show ?thesis using pc by (auto simp: image_Un)
    qed
  qed
  from r m(1) i1 i2 i3 i4 pc discovery_updates q show ?thesis
    by (intro exI[of _ X] exI[of _ m] conjI)
qed

text \<open>
  The scan of \<open>one_ecu\<close> runs through, with nine updates; the scan of \<open>slow_listening\<close>
  ends at the check after listening, with four.
\<close>

theorem progress_sequence_witness:
  "wf_rx one_ecu
   \<and> detected_rate one_ecu \<noteq> 0 \<and> \<not> deadline_passed one_ecu (after_detection one_ecu)
   \<and> \<not> deadline_passed one_ecu (after_listening one_ecu)
   \<and> (\<exists>s' m. performDiagnosticScan one_ecu = Inr s' \<and> m \<le> NUM_ECUS
         \<and> progress_log s' = progress_log one_ecu @
            [(''Detecting vehicle...'', 0), (''Vehicle found! Analyzing...'', 25),
             (''Reading vehicle data...'', 50)]
            @ concat (map probe_progress [0..<m])
            @ [(''Checking systems...'', 75), (''Scan complete!'', 100)]
         \<and> map snd (progress_log s') = [0, 25, 50, 50, 56, 62, 68, 75, 100]
         \<and> snd ` set (progress_log s') \<subseteq> snd ` set (progress_log one_ecu) \<union> {0, 25, 50, 56, 62, 68, 75, 100})
   \<and> wf_rx slow_listening
   \<and> detected_rate slow_listening \<noteq> 0
   \<and> \<not> deadline_passed slow_listening (after_detection slow_listening)
   \<and> deadline_passed slow_listening (after_listening slow_listening)
   \<and> (\<exists>s'. performDiagnosticScan slow_listening = Inr s'
         \<and> progress_log s' = progress_log slow_listening @
            [(''Detecting vehicle...'', 0), (''Vehicle found! Analyzing...'', 25),
             (''Reading vehicle data...'', 50), (''Scan timeout'', 100)])"
proof -
  have c: "detected_rate one_ecu \<noteq> 0" "\<not> deadline_passed one_ecu (after_detection one_ecu)"
    "\<not> deadline_passed one_ecu (after_listening one_ecu)"
    using in_time[of "(Some pid_answer, 10) # quiet 240 @ [(Some dtc_first, 10)]", folded one_ecu_def]
    by (simp_all add: one_ecu_def after_traffic)
  have b: "detected_rate slow_listening \<noteq> 0"
    "\<not> deadline_passed slow_listening (after_detection slow_listening)"
    "deadline_passed slow_listening (after_listening slow_listening)"
    unfolding slow_listening_state unfolding slow_listening_def after_traffic
    by (simp_all add: deadline_passed_def millis_def kiosk_with_def TOTAL_SCAN_TIMEOUT_MS_def)
  have wl: "wf_rx slow_listening"
    by (auto simp: wf_rx_kiosk_with slow_listening_def traffic_def frames_wf)
  from progress_sequence[OF runs_wf(1)]
  obtain s' m where s': "performDiagnosticScan one_ecu = Inr s'" "m \<le> NUM_ECUS"
    "detected_rate one_ecu \<noteq> 0 \<and> \<not> deadline_passed one_ecu (after_detection one_ecu)
          \<and> \<not> deadline_passed one_ecu (after_listening one_ecu) \<longrightarrow>
          progress_log s' = progress_log one_ecu @
            [(''Detecting vehicle...'', 0), (''Vehicle found! Analyzing...'', 25),
             (''Reading vehicle data...'', 50)]
            @ concat (map probe_progress [0..<m])
            @ [(''Checking systems...'', 75), (''Scan complete!'', 100)]
          \<and> (m < NUM_ECUS \<longrightarrow>
                ECU_PROBE_TIMEOUT_MS < millis (after_discovery one_ecu) - millis (after_listening one_ecu))"
    "snd ` set (progress_log s') \<subseteq> snd ` set (progress_log one_ecu) \<union> {0, 25, 50, 56, 62, 68, 75, 100}"
    by (elim exE conjE) (rule that)
  from s'(3) c have p: "progress_log s' = progress_log one_ecu @
            [(''Detecting vehicle...'', 0), (''Vehicle found! Analyzing...'', 25),
             (''Reading vehicle data...'', 50)]
            @ concat (map probe_progress [0..<m])
            @ [(''Checking systems...'', 75), (''Scan complete!'', 100)]" by simp
  from s'(1) have a: "map snd (progress_log s') = [0, 25, 50, 50, 56, 62, 68, 75, 100]"
    unfolding one_ecu_scan by (auto simp: kiosk_with_def)
  from s'(1,2) p a s'(4) have 1: "\<exists>s' m. performDiagnosticScan one_ecu = Inr s' \<and> m \<le> NUM_ECUS
         \<and> progress_log s' = progress_log one_ecu @
            [(''Detecting vehicle...'', 0), (''Vehicle found! Analyzing...'', 25),
             (''Reading vehicle data...'', 50)]
            @ concat (map probe_progress [0..<m])
            @ [(''Checking systems...'', 75), (''Scan complete!'', 100)]
         \<and> map snd (progress_log s') = [0, 25, 50, 50, 56, 62, 68, 75, 100]
         \<and> snd ` set (progress_log s') \<subseteq> snd ` set (progress_log one_ecu) \<union> {0, 25, 50, 56, 62, 68, 75, 100}"
    by (intro exI[of _ s'] exI[of _ m] conjI)
  from progress_sequence[OF wl]
  obtain t' where t': "performDiagnosticScan slow_listening = Inr t'"
    "detected_rate slow_listening \<noteq> 0 \<and> \<not> deadline_passed slow_listening (after_detection slow_listening)
          \<and> deadline_passed slow_listening (after_listening slow_listening) \<longrightarrow>
          progress_log t' = progress_log slow_listening @
            [(''Detecting vehicle...'', 0), (''Vehicle found! Analyzing...'', 25),
             (''Reading vehicle data...'', 50), (''Scan timeout'', 100)]"
    by (elim exE conjE) (rule that)
  from t'(2) b have "progress_log t' = progress_log slow_listening @
            [(''Detecting vehicle...'', 0), (''Vehicle found! Analyzing...'', 25),
             (''Reading vehicle data...'', 50), (''Scan timeout'', 100)]" by simp
  with t'(1) have 2: "\<exists>s'. performDiagnosticScan slow_listening = Inr s'
         \<and> progress_log s' = progress_log slow_listening @
            [(''Detecting vehicle...'', 0), (''Vehicle found! Analyzing...'', 25),
             (''Reading vehicle data...'', 50), (''Scan timeout'', 100)]"
    by (intro exI[of _ t'] conjI)
  from runs_wf(1) c 1 wl b 2 show ?thesis by (intro conjI)
qed

text \<open>
  The scan of \<open>two_answers\<close> shows nine updates, one of them at 56 percent.
\<close>

theorem progress_between_milestones_counterexample:
  "\<exists>s'. performDiagnosticScan two_answers = Inr s'
      \<and> progress_log s' =
          [(''Detecting vehicle...'', 0), (''Vehicle found! Analyzing...'', 25),
           (''Reading vehicle data...'', 50), (''Checking ECU 1/16'', 50),
           (''Checking ECU 5/16'', 56), (''Checking ECU 9/16'', 62),
           (''Checking ECU 13/16'', 68), (''Checking systems...'', 75),
           (''Scan complete!'', 100)]
      \<and> length (progress_log s') = 9
      \<and> (''Checking ECU 5/16'', 56) \<in> set (progress_log s')
      \<and> 56 \<notin> {0, 25, 50, 75, 100 :: int}"
  unfolding two_answers_scan by (simp add: kiosk_with_def)

end
